theory Spec2Isabelle
  imports Main
begin

section \<open>Strings and the regular-expression fragments the sources use\<close>

text \<open>
  A JavaScript string is a sequence of UTF-16 code units. The model uses \<^typ>\<open>string\<close>:
  each \<^typ>\<open>char\<close> stands for one code unit below 256. All patterns of the sources are
  written in ASCII, so the only non-ASCII code unit with a special role below 256 is the
  no-break space \<open>0xA0\<close>, which \<open>trim\<close> and \<open>\s\<close> treat as white space.
\<close>

abbreviation LF :: char where "LF \<equiv> CHR 0x0A"
abbreviation CR :: char where "CR \<equiv> CHR 0x0D"
abbreviation TAB :: char where "TAB \<equiv> CHR 0x09"
abbreviation BSL :: char where "BSL \<equiv> CHR 0x5C"
abbreviation DQ :: char where "DQ \<equiv> CHR 0x22"
abbreviation SQ :: char where "SQ \<equiv> CHR 0x27"
abbreviation BQ :: char where "BQ \<equiv> CHR 0x60"

text \<open>White space of \<open>String.prototype.trim\<close> and of the class \<open>\s\<close>.\<close>

definition is_space :: "char \<Rightarrow> bool" where
  "is_space c \<longleftrightarrow> c \<in> set [TAB, LF, CHR 0x0B, CHR 0x0C, CHR 0x0D, CHR 0x20, CHR 0xA0]"

text \<open>Line terminators: the characters the pattern \<open>.\<close> does not match.\<close>

definition is_line_terminator :: "char \<Rightarrow> bool" where
  "is_line_terminator c \<longleftrightarrow> c = LF \<or> c = CR"

definition is_digit :: "char \<Rightarrow> bool" where
  "is_digit c \<longleftrightarrow> c \<in> set ''0123456789''"

definition is_lower :: "char \<Rightarrow> bool" where
  "is_lower c \<longleftrightarrow> c \<in> set ''abcdefghijklmnopqrstuvwxyz''"

definition is_upper :: "char \<Rightarrow> bool" where
  "is_upper c \<longleftrightarrow> c \<in> set ''ABCDEFGHIJKLMNOPQRSTUVWXYZ''"

text \<open>The class \<open>\w\<close>.\<close>

definition is_word :: "char \<Rightarrow> bool" where
  "is_word c \<longleftrightarrow> is_lower c \<or> is_upper c \<or> is_digit c \<or> c = CHR ''_''"

text \<open>\<open>String.prototype.trim\<close>.\<close>

definition trim :: "string \<Rightarrow> string" where
  "trim s = rev (dropWhile is_space (rev (dropWhile is_space s)))"

text \<open>\<open>s.split("\n")\<close>: never the empty list; the empty string has one empty line.\<close>

fun split_nl :: "string \<Rightarrow> string list" where
  "split_nl [] = [[]]"
| "split_nl (c # cs) =
     (if c = LF then [] # split_nl cs
      else (case split_nl cs of [] \<Rightarrow> [[c]] | l # ls \<Rightarrow> (c # l) # ls))"

text \<open>\<open>lines.join("\n")\<close>.\<close>

fun join_nl :: "string list \<Rightarrow> string" where
  "join_nl [] = []"
| "join_nl [l] = l"
| "join_nl (l # ls) = l @ LF # join_nl ls"

text \<open>\<open>s.startsWith(p)\<close>, returning what follows the prefix.\<close>

fun strip_prefix :: "string \<Rightarrow> string \<Rightarrow> string option" where
  "strip_prefix [] s = Some s"
| "strip_prefix (p # ps) [] = None"
| "strip_prefix (p # ps) (c # cs) = (if p = c then strip_prefix ps cs else None)"

definition startsWith :: "string \<Rightarrow> string \<Rightarrow> bool" where
  "startsWith s p \<longleftrightarrow> strip_prefix p s \<noteq> None"

text \<open>
  Case-insensitive literal (flag \<open>i\<close>, no flag \<open>u\<close>): two code units match when their
  canonical forms agree. For the ASCII letters of the patterns this is agreement up to ASCII
  case; no other code unit canonicalises to an ASCII letter.
\<close>

definition to_upper :: "char \<Rightarrow> char" where
  "to_upper c = (case map_of (zip ''abcdefghijklmnopqrstuvwxyz'' ''ABCDEFGHIJKLMNOPQRSTUVWXYZ'') c
                 of None \<Rightarrow> c | Some u \<Rightarrow> u)"

fun strip_prefix_ci :: "string \<Rightarrow> string \<Rightarrow> string option" where
  "strip_prefix_ci [] s = Some s"
| "strip_prefix_ci (p # ps) [] = None"
| "strip_prefix_ci (p # ps) (c # cs) =
     (if to_upper p = to_upper c then strip_prefix_ci ps cs else None)"

text \<open>The fragment \<open>\s*\(\<close> that ends most call patterns.\<close>

definition ws_paren :: "string \<Rightarrow> string option" where
  "ws_paren s = strip_prefix ''('' (dropWhile is_space s)"

text \<open>
  A pattern anchored at one position: given the code unit before the position (for \<open>\b\<close>)
  and the text from the position on, it returns the text after the match.
  \<open>regex_test\<close> is \<open>RegExp.prototype.test\<close>: some position matches.
\<close>

type_synonym matcher = "char option \<Rightarrow> string \<Rightarrow> string option"

fun regex_test :: "matcher \<Rightarrow> char option \<Rightarrow> string \<Rightarrow> bool" where
  "regex_test m prev [] = (m prev [] \<noteq> None)"
| "regex_test m prev (c # cs) = (m prev (c # cs) \<noteq> None \<or> regex_test m (Some c) cs)"

text \<open>
  \<open>s.match(/.../g)\<close> and \<open>s.matchAll\<close>: the matches from left to right, each search
  resuming where the previous match ended (one further after an empty match). The counter
  is the number of code units still covered by the last match. The payload of a match is
  what the anchored pattern returns with the remaining text.
\<close>

fun match_all :: "(char option \<Rightarrow> string \<Rightarrow> ('a \<times> string) option) \<Rightarrow> nat \<Rightarrow> char option \<Rightarrow> string \<Rightarrow> 'a list" where
  "match_all m k prev [] =
     (if k = 0 then (case m prev [] of None \<Rightarrow> [] | Some (a, r) \<Rightarrow> [a]) else [])"
| "match_all m (Suc k) prev (c # cs) = match_all m k (Some c) cs"
| "match_all m 0 prev (c # cs) =
     (case m prev (c # cs) of
        None \<Rightarrow> match_all m 0 (Some c) cs
      | Some (a, r) \<Rightarrow> a # match_all m (length cs - length r) (Some c) cs)"

text \<open>The matched text as payload.\<close>

definition with_text :: "matcher \<Rightarrow> char option \<Rightarrow> string \<Rightarrow> (string \<times> string) option" where
  "with_text m prev s =
     (case m prev s of None \<Rightarrow> None | Some r \<Rightarrow> Some (take (length s - length r) s, r))"

definition match_texts :: "matcher \<Rightarrow> string \<Rightarrow> string list" where
  "match_texts m s = match_all (with_text m) 0 None s"

text \<open>Decimal rendering of a count in a template literal.\<close>

fun show_nat :: "nat \<Rightarrow> string" where
  "show_nat n =
     (if n < 10 then [''0123456789'' ! n]
      else show_nat (n div 10) @ [''0123456789'' ! (n mod 10)])"

declare show_nat.simps [simp del]

section \<open>The output parser (src/lib/parseOutput.ts)\<close>

record ParseResult =
  success :: bool
  code :: "string option"
  error :: "string option"
  rawResponse :: "string option"

record content_validation =
  cv_valid :: bool
  cv_error :: "string option"

text \<open>The loop of \<open>validateCodeContent\<close>: the first trimmed line that is neither empty nor
  a comment, or the empty string.\<close>

fun firstCodeLine :: "string list \<Rightarrow> string" where
  "firstCodeLine [] = []"
| "firstCodeLine (line # lines) =
     (let trimmed = trim line in
      if trimmed \<noteq> [] \<and> \<not> startsWith trimmed ''//'' then trimmed else firstCodeLine lines)"

text \<open>The pattern \<open>/\$:/\<close>.\<close>

definition rx_voice :: matcher where
  "rx_voice prev s = strip_prefix ''$:'' s"

definition validateCodeContent :: "string \<Rightarrow> content_validation" where
  "validateCodeContent src =
     (let first = firstCodeLine (split_nl src) in
      if first = [] then
        \<lparr>cv_valid = False, cv_error = Some ''code contains no executable statements''\<rparr>
      else if \<not> startsWith first ''setcpm('' \<and> \<not> startsWith first ''setcpm ('' then
        \<lparr>cv_valid = False,
         cv_error = Some (''code must start with setcpm(...), found: '' @ take 30 first @ ''...'')\<rparr>
      else if \<not> regex_test rx_voice None src then
        \<lparr>cv_valid = False,
         cv_error = Some ''code must contain at least one voice assignment ($:)''\<rparr>
      else
        let openParens = count_list src (CHR ''(''); closeParens = count_list src (CHR '')'') in
        if openParens \<noteq> closeParens then
          \<lparr>cv_valid = False,
           cv_error = Some (''unbalanced parentheses: '' @ show_nat openParens @ '' open, ''
                             @ show_nat closeParens @ '' close'')\<rparr>
        else
          let openBrackets = count_list src (CHR ''[''); closeBrackets = count_list src (CHR '']'') in
          if openBrackets \<noteq> closeBrackets then
            \<lparr>cv_valid = False,
             cv_error = Some (''unbalanced brackets: '' @ show_nat openBrackets @ '' open, ''
                               @ show_nat closeBrackets @ '' close'')\<rparr>
          else
            let openBraces = count_list src (CHR ''{''); closeBraces = count_list src (CHR ''}'') in
            if openBraces \<noteq> closeBraces then
              \<lparr>cv_valid = False,
               cv_error = Some (''unbalanced braces: '' @ show_nat openBraces @ '' open, ''
                                 @ show_nat closeBraces @ '' close'')\<rparr>
            else \<lparr>cv_valid = True, cv_error = None\<rparr>)"

text \<open>The five patterns of \<open>looksLikeStrudelCode\<close>:
  \<open>/setcpm\s*\(/i\<close>, \<open>/\$:/\<close>, \<open>/note\s*\(/\<close>, \<open>/s\s*\(/\<close>, \<open>/\.gain\s*\(/\<close>.\<close>

definition rx_setcpm :: matcher where
  "rx_setcpm prev s = (case strip_prefix_ci ''setcpm'' s of None \<Rightarrow> None | Some r \<Rightarrow> ws_paren r)"

definition rx_call :: "string \<Rightarrow> matcher" where
  "rx_call name prev s = (case strip_prefix name s of None \<Rightarrow> None | Some r \<Rightarrow> ws_paren r)"

definition heuristic_patterns :: "matcher list" where
  "heuristic_patterns = [rx_setcpm, rx_voice, rx_call ''note'', rx_call ''s'', rx_call ''.gain'']"

definition looksLikeStrudelCode :: "string \<Rightarrow> bool" where
  "looksLikeStrudelCode text = (length (filter (\<lambda>p. regex_test p None text) heuristic_patterns) \<ge> 2)"

text \<open>\<open>cleaned.replace(/\\q/g, q)\<close> for a quote character \<open>q\<close>.\<close>

fun replace_escaped :: "char \<Rightarrow> string \<Rightarrow> string" where
  "replace_escaped q (a # b # cs) =
     (if a = BSL \<and> b = q then q # replace_escaped q cs else a # replace_escaped q (b # cs))"
| "replace_escaped q cs = cs"

text \<open>The callback of \<open>cleaned.replace(/\\([nrt])/g, ...)\<close>.\<close>

definition escape_char :: "char \<Rightarrow> char" where
  "escape_char ch =
     (if ch = CHR ''n'' then LF else if ch = CHR ''t'' then TAB else if ch = CHR ''r'' then CR else ch)"

fun replace_nrt :: "string \<Rightarrow> string" where
  "replace_nrt (a # b # cs) =
     (if a = BSL \<and> b \<in> set ''nrt'' then escape_char b # replace_nrt cs
      else a # replace_nrt (b # cs))"
| "replace_nrt cs = cs"

definition cleanCode :: "string \<Rightarrow> string" where
  "cleanCode src = replace_nrt (replace_escaped SQ (replace_escaped DQ src))"

text \<open>
  The pattern \<open>/```(?:javascript|js|strudel)?\n?([\s\S]*?)```/g\<close>. The lazy group ends at the
  first closing fence; the optional tag and newline are tried in the order of the
  backtracking matcher. The payload is capture group 1.
\<close>

abbreviation fence :: string where "fence \<equiv> [BQ, BQ, BQ]"

fun until_fence :: "string \<Rightarrow> (string \<times> string) option" where
  "until_fence [] = None"
| "until_fence (c # cs) =
     (case strip_prefix fence (c # cs) of
        Some r \<Rightarrow> Some ([], r)
      | None \<Rightarrow> (case until_fence cs of None \<Rightarrow> None | Some (inner, r) \<Rightarrow> Some (c # inner, r)))"

fun first_some :: "'a option list \<Rightarrow> 'a option" where
  "first_some [] = None"
| "first_some (None # xs) = first_some xs"
| "first_some (Some a # xs) = Some a"

definition after_tag :: "string \<Rightarrow> (string \<times> string) option" where
  "after_tag r = first_some
     [case strip_prefix [LF] r of None \<Rightarrow> None | Some r' \<Rightarrow> until_fence r', until_fence r]"

definition codeBlockRegex :: "char option \<Rightarrow> string \<Rightarrow> (string \<times> string) option" where
  "codeBlockRegex prev s =
     (case strip_prefix fence s of
        None \<Rightarrow> None
      | Some r \<Rightarrow> first_some
          (map (\<lambda>tag. case strip_prefix tag r of None \<Rightarrow> None | Some r' \<Rightarrow> after_tag r')
               [''javascript'', ''js'', ''strudel'', []]))"

definition parseClaudeOutput :: "string \<Rightarrow> ParseResult" where
  "parseClaudeOutput response =
     (if response = [] \<or> trim response = [] then
        \<lparr>success = False, code = None, error = Some ''empty response'',
         rawResponse = Some response\<rparr>
      else
        let trimmed = trim response;
            matches = match_all codeBlockRegex 0 None trimmed
        in
        if length matches = 0 then
          (if looksLikeStrudelCode trimmed then
             (let validation = validateCodeContent trimmed in
              if \<not> cv_valid validation then
                \<lparr>success = False, code = None, error = cv_error validation,
                 rawResponse = Some response\<rparr>
              else
                \<lparr>success = True, code = Some (cleanCode trimmed), error = None,
                 rawResponse = None\<rparr>)
           else
             \<lparr>success = False, code = None, error = Some ''no code block found in response'',
              rawResponse = Some response\<rparr>)
        else if length matches > 1 then
          \<lparr>success = False, code = None,
           error = Some (''found '' @ show_nat (length matches) @ '' code blocks, expected exactly 1''),
           rawResponse = Some response\<rparr>
        else
          let inner = trim (hd matches) in
          if inner = [] then
            \<lparr>success = False, code = None, error = Some ''code block is empty'',
             rawResponse = Some response\<rparr>
          else
            let validation = validateCodeContent inner in
            if \<not> cv_valid validation then
              \<lparr>success = False, code = None, error = cv_error validation,
               rawResponse = Some response\<rparr>
            else
              \<lparr>success = True, code = Some (cleanCode inner), error = None, rawResponse = None\<rparr>)"

text \<open>\<open>isCodeUnchanged\<close> and its local function \<open>normalize\<close>.\<close>

definition normalize_code :: "string \<Rightarrow> string" where
  "normalize_code src = join_nl (filter (\<lambda>line. length line > 0) (map trim (split_nl src)))"

definition isCodeUnchanged :: "string \<Rightarrow> string \<Rightarrow> bool" where
  "isCodeUnchanged oldCode newCode \<longleftrightarrow> normalize_code oldCode = normalize_code newCode"

section \<open>Numbers\<close>

text \<open>
  A JavaScript number is a double. A finite double is an integer times a power of two, and
  the model keeps that pair: \<open>Num m e\<close> is the value \<open>m * 2^e\<close>. The model rounds where the
  source does: for positive \<open>n\<close> and \<open>d\<close>, \<open>to_double n d\<close> is the double nearest to
  \<open>n / d\<close> (ties to even, subnormals below \<open>2^-1022\<close>, infinity from \<open>2^1024\<close> on).
\<close>

datatype jsnum = NaN | Num int int | PosInf | NegInf

text \<open>The number of binary digits of a positive integer.\<close>

function bitlen :: "int \<Rightarrow> nat" where
  "bitlen n = (if n \<le> 0 then 0 else Suc (bitlen (n div 2)))"
  by pat_completeness auto
termination
  by (relation "measure nat") auto

declare bitlen.simps [simp del]

text \<open>\<open>scale_up x k\<close> is \<open>x * 2^k\<close> for \<open>k \<ge> 0\<close> and \<open>x\<close> otherwise.\<close>

definition scale_up :: "int \<Rightarrow> int \<Rightarrow> int" where
  "scale_up x k = (if 0 \<le> k then x * 2 ^ nat k else x)"

definition to_double :: "int \<Rightarrow> int \<Rightarrow> jsnum" where
  "to_double n d =
     (if n \<le> 0 \<or> d \<le> 0 then Num 0 0
      else
        let c = int (bitlen n) - int (bitlen d);
            e = (if scale_up d c \<le> scale_up n (- c) then c else c - 1);
            ex = max e (- 1022) - 52;
            num = scale_up n (- ex);
            den = scale_up d ex;
            f = num div den;
            r = num mod den;
            m = (if 2 * r < den then f else if den < 2 * r then f + 1
                 else if even f then f else f + 1)
        in if 2 ^ 1024 \<le> scale_up m ex then PosInf else Num m ex)"

text \<open>The comparison \<open>a > b\<close> of two numbers.\<close>

fun js_gt :: "jsnum \<Rightarrow> jsnum \<Rightarrow> bool" where
  "js_gt NaN b = False"
| "js_gt a NaN = False"
| "js_gt (Num m1 e1) (Num m2 e2) = (scale_up m2 (e2 - e1) < scale_up m1 (e1 - e2))"
| "js_gt (Num m1 e1) PosInf = False"
| "js_gt (Num m1 e1) NegInf = True"
| "js_gt PosInf PosInf = False"
| "js_gt PosInf b = True"
| "js_gt NegInf b = False"

text \<open>A count (the length of a match array) as a number.\<close>

definition count_num :: "nat \<Rightarrow> jsnum" where
  "count_num n = Num (int n) 0"

definition digit_val :: "char \<Rightarrow> int" where
  "digit_val c = int (length (takeWhile (\<lambda>d. d \<noteq> c) ''0123456789''))"

definition digits_val :: "string \<Rightarrow> int" where
  "digits_val ds = foldl (\<lambda>a c. 10 * a + digit_val c) 0 ds"

text \<open>
  \<open>parseFloat\<close> on a text of digits and dots, the only texts it is given here: the longest
  prefix of the form digits, optional dot, digits is read; without any digit the result is
  \<open>NaN\<close>.
\<close>

definition parseFloat :: "string \<Rightarrow> jsnum" where
  "parseFloat s =
     (let ip = takeWhile is_digit s;
          r = dropWhile is_digit s;
          fp = (case r of [] \<Rightarrow> [] | c # cs \<Rightarrow> if c = CHR ''.'' then takeWhile is_digit cs else [])
      in if ip = [] \<and> fp = [] then NaN
         else to_double (digits_val (ip @ fp)) (10 ^ length fp))"

text \<open>\<open>parseInt\<close> on a text that starts with digits (radix ten).\<close>

definition parseInt :: "string \<Rightarrow> jsnum" where
  "parseInt s =
     (let ip = takeWhile is_digit s in if ip = [] then NaN else to_double (digits_val ip) 1)"

text \<open>
  \<open>Number::toString\<close> in a template literal. Integers below \<open>10^21\<close> print in decimal;
  the rendering of the other finite doubles is the parameter \<open>render\<close>.
\<close>

definition number_text :: "(int \<Rightarrow> int \<Rightarrow> string) \<Rightarrow> jsnum \<Rightarrow> string" where
  "number_text render x =
     (case x of
        NaN \<Rightarrow> ''NaN''
      | PosInf \<Rightarrow> ''Infinity''
      | NegInf \<Rightarrow> ''-Infinity''
      | Num m e \<Rightarrow>
          if scale_up m e mod scale_up 1 (- e) = 0 \<and> \<bar>scale_up m e div scale_up 1 (- e)\<bar> < 10 ^ 21
          then (if m < 0 then ''-'' else []) @ show_nat (nat \<bar>scale_up m e div scale_up 1 (- e)\<bar>)
          else render m e)"

section \<open>The content validator (src/lib/validateOutput.ts)\<close>

record ValidationResult =
  valid :: bool
  issues :: "string list"

record ValidationConfig =
  maxVoices :: jsnum
  maxLines :: jsnum
  maxRandomUsage :: jsnum
  maxEffectsPerVoice :: jsnum
  requireSetcpm :: bool
  rejectLocalhost :: bool
  maxDelayFeedback :: jsnum
  maxRoomSize :: jsnum

text \<open>\<open>Partial<ValidationConfig>\<close>: every option may be absent.\<close>

record PartialConfig =
  maxVoices_opt :: "jsnum option"
  maxLines_opt :: "jsnum option"
  maxRandomUsage_opt :: "jsnum option"
  maxEffectsPerVoice_opt :: "jsnum option"
  requireSetcpm_opt :: "bool option"
  rejectLocalhost_opt :: "bool option"
  maxDelayFeedback_opt :: "jsnum option"
  maxRoomSize_opt :: "jsnum option"

definition no_overrides :: PartialConfig where
  "no_overrides =
     \<lparr>maxVoices_opt = None, maxLines_opt = None, maxRandomUsage_opt = None,
      maxEffectsPerVoice_opt = None, requireSetcpm_opt = None, rejectLocalhost_opt = None,
      maxDelayFeedback_opt = None, maxRoomSize_opt = None\<rparr>"

definition DEFAULT_CONFIG :: ValidationConfig where
  "DEFAULT_CONFIG =
     \<lparr>maxVoices = Num 8 0, maxLines = Num 250 0, maxRandomUsage = Num 15 0,
      maxEffectsPerVoice = Num 8 0, requireSetcpm = True, rejectLocalhost = True,
      maxDelayFeedback = to_double 7 10, maxRoomSize = to_double 95 100\<rparr>"

text \<open>The spread \<open>{ ...DEFAULT_CONFIG, ...config }\<close>.\<close>

definition spread :: "'a \<Rightarrow> 'a option \<Rightarrow> 'a" where
  "spread d v = (case v of None \<Rightarrow> d | Some x \<Rightarrow> x)"

definition merge_config :: "ValidationConfig \<Rightarrow> PartialConfig \<Rightarrow> ValidationConfig" where
  "merge_config d c =
     \<lparr>maxVoices = spread (maxVoices d) (maxVoices_opt c),
      maxLines = spread (maxLines d) (maxLines_opt c),
      maxRandomUsage = spread (maxRandomUsage d) (maxRandomUsage_opt c),
      maxEffectsPerVoice = spread (maxEffectsPerVoice d) (maxEffectsPerVoice_opt c),
      requireSetcpm = spread (requireSetcpm d) (requireSetcpm_opt c),
      rejectLocalhost = spread (rejectLocalhost d) (rejectLocalhost_opt c),
      maxDelayFeedback = spread (maxDelayFeedback d) (maxDelayFeedback_opt c),
      maxRoomSize = spread (maxRoomSize d) (maxRoomSize_opt c)\<rparr>"

definition countVoices :: "string \<Rightarrow> nat" where
  "countVoices src = length (match_texts rx_voice src)"

definition countLines :: "string \<Rightarrow> nat" where
  "countLines src =
     length (filter (\<lambda>line. let trimmed = trim line in
                       length trimmed > 0 \<and> \<not> startsWith trimmed ''//'')
               (split_nl src))"

definition hasSetcpm :: "string \<Rightarrow> bool" where
  "hasSetcpm src = regex_test rx_setcpm None src"

text \<open>
  An optional case-insensitive code unit (\<open>s?\<close>): the continuations in the order the
  backtracking matcher tries them.
\<close>

definition opt_ci :: "char \<Rightarrow> string \<Rightarrow> string list" where
  "opt_ci p s =
     (case s of [] \<Rightarrow> [s] | c # cs \<Rightarrow> if to_upper p = to_upper c then [cs, s] else [s])"

definition one_of :: "string \<Rightarrow> string \<Rightarrow> string option" where
  "one_of cls s = (case s of [] \<Rightarrow> None | c # cs \<Rightarrow> if c \<in> set cls then Some cs else None)"

text \<open>\<open>/samples?\s*\(\s*['"`]https?:\/\/TAIL/i\<close>, with \<open>TAIL\<close> either \<open>localhost\<close> or empty.\<close>

definition rx_samples_url :: "string \<Rightarrow> matcher" where
  "rx_samples_url tail prev s =
     Option.bind (strip_prefix_ci ''sample'' s) (\<lambda>r.
       first_some (map (\<lambda>r1.
         Option.bind (ws_paren r1) (\<lambda>r2.
           Option.bind (one_of [SQ, DQ, BQ] (dropWhile is_space r2)) (\<lambda>r3.
             Option.bind (strip_prefix_ci ''http'' r3) (\<lambda>r4.
               first_some (map (\<lambda>r5. strip_prefix_ci (''://'' @ tail) r5)
                               (opt_ci (CHR ''s'') r4))))))
         (opt_ci (CHR ''s'') r)))"

text \<open>\<open>/await\s+samples?\s*\(/i\<close>.\<close>

definition rx_await_samples :: matcher where
  "rx_await_samples prev s =
     Option.bind (strip_prefix_ci ''await'' s) (\<lambda>r.
       if takeWhile is_space r = [] then None
       else Option.bind (strip_prefix_ci ''sample'' (dropWhile is_space r)) (\<lambda>r1.
              first_some (map ws_paren (opt_ci (CHR ''s'') r1))))"

definition hasForbiddenSamples :: "string \<Rightarrow> bool" where
  "hasForbiddenSamples src =
     (if regex_test (rx_samples_url ''localhost'') None src then True
      else if regex_test (rx_samples_url []) None src then True
      else if regex_test rx_await_samples None src then True
      else False)"

text \<open>
  \<open>s.replace(re, "")\<close> for a pattern without the flag \<open>g\<close>: the leftmost match is removed.
\<close>

fun remove_first :: "matcher \<Rightarrow> char option \<Rightarrow> string \<Rightarrow> string" where
  "remove_first m prev [] = []"
| "remove_first m prev (c # cs) =
     (case m prev (c # cs) of
        Some r \<Rightarrow> r
      | None \<Rightarrow> c # remove_first m (Some c) cs)"

text \<open>\<open>/\/\/.*$/\<close>: two slashes and everything up to the end of the text, none of it a line
  terminator.\<close>

definition rx_comment :: matcher where
  "rx_comment prev s =
     Option.bind (strip_prefix ''//'' s) (\<lambda>r.
       if list_all (\<lambda>c. \<not> is_line_terminator c) r then Some [] else None)"

text \<open>\<open>/\.\s*NAME\s*\(/\<close>.\<close>

definition rx_method :: "string \<Rightarrow> matcher" where
  "rx_method name prev s =
     Option.bind (strip_prefix ''.'' s) (\<lambda>r.
       Option.bind (strip_prefix name (dropWhile is_space r)) ws_paren)"

text \<open>
  \<open>/(["'])(?:\\.|(?!\1).)*\1\s*\.\s*[a-zA-Z_]\w*\s*\(/\<close>. After the opening quote \<open>q\<close>
  the body is a sequence of units, each a backslash with any following code unit or one
  code unit other than \<open>q\<close> (never a line terminator); \<open>string_body\<close> holds when some
  division of the text into units reaches a closing \<open>q\<close> followed by the method call.
\<close>

definition rx_after_string :: "string \<Rightarrow> bool" where
  "rx_after_string s =
     (case dropWhile is_space s of
        [] \<Rightarrow> False
      | d # r \<Rightarrow>
          d = CHR ''.'' \<and>
          (case dropWhile is_space r of
             [] \<Rightarrow> False
           | c # r' \<Rightarrow>
               (is_lower c \<or> is_upper c \<or> c = CHR ''_'') \<and>
               ws_paren (dropWhile is_word r') \<noteq> None))"

fun string_body :: "char \<Rightarrow> string \<Rightarrow> bool" where
  "string_body q [] = False"
| "string_body q [c] = (c = q \<and> rx_after_string [])"
| "string_body q (c # d # cs) =
     ((c = BSL \<and> \<not> is_line_terminator d \<and> string_body q cs)
      \<or> (c \<noteq> q \<and> \<not> is_line_terminator c \<and> string_body q (d # cs))
      \<or> (c = q \<and> rx_after_string (d # cs)))"

definition stringMethodPattern :: matcher where
  "stringMethodPattern prev s =
     (case s of
        [] \<Rightarrow> None
      | q # r \<Rightarrow> if (q = DQ \<or> q = SQ) \<and> string_body q r then Some [] else None)"

text \<open>
  \<open>if (c) issues.push(m)\<close>, and \<open>if (x) issues.push(x)\<close> for a text that may be \<open>null\<close>.
\<close>

definition push_when :: "bool \<Rightarrow> string \<Rightarrow> string list \<Rightarrow> string list" where
  "push_when c m issue_list = (if c then issue_list @ [m] else issue_list)"

definition push_text :: "string option \<Rightarrow> string list \<Rightarrow> string list" where
  "push_text x issue_list =
     (case x of None \<Rightarrow> issue_list | Some m \<Rightarrow> if m \<noteq> [] then issue_list @ [m] else issue_list)"

definition findInvalidMethodUsage :: "string \<Rightarrow> string list" where
  "findInvalidMethodUsage src =
     (let issues = [];
          codeWithoutComments = join_nl (map (remove_first rx_comment None) (split_nl src));
          issues = push_when (regex_test (rx_method ''note'') None codeWithoutComments)
                     ''invalid method .note(...) - use note(...) or .detune(...) instead'' issues;
          issues = push_when (regex_test (rx_method ''resonance'') None codeWithoutComments)
                     ''invalid method .resonance(...) - use .lpq(...) instead'' issues;
          issues = push_when (regex_test (rx_method ''euclidean'') None codeWithoutComments)
                     ''invalid method .euclidean(...) - not available in this build'' issues;
          issues = push_when (regex_test stringMethodPattern None codeWithoutComments)
                     ''string literal method call detected - apply transforms to patterns, not strings''
                     issues
      in issues)"

text \<open>The assertion \<open>\b\<close> between the previous code unit and the rest of the text.\<close>

definition word_boundary :: "char option \<Rightarrow> string \<Rightarrow> bool" where
  "word_boundary prev s =
     ((case prev of None \<Rightarrow> False | Some c \<Rightarrow> is_word c)
      \<noteq> (case s of [] \<Rightarrow> False | c # cs \<Rightarrow> is_word c))"

text \<open>\<open>/\b(rand|irand)\s*\(/g\<close>.\<close>

definition rx_rand :: matcher where
  "rx_rand prev s =
     (if word_boundary prev s
      then first_some (map (\<lambda>name. Option.bind (strip_prefix name s) ws_paren) [''rand'', ''irand''])
      else None)"

text \<open>\<open>/\bperlin\b/g\<close>.\<close>

definition rx_perlin :: matcher where
  "rx_perlin prev s =
     (if word_boundary prev s
      then Option.bind (strip_prefix ''perlin'' s)
             (\<lambda>r. if word_boundary (Some (CHR ''n'')) r then Some r else None)
      else None)"

text \<open>\<open>/\.(sometimesBy|sometimes|rarely|almostNever|almostAlways|choose|chooseCycles)\s*\(/g\<close>.\<close>

definition rx_prob :: matcher where
  "rx_prob prev s =
     Option.bind (strip_prefix ''.'' s) (\<lambda>r.
       first_some (map (\<lambda>name. Option.bind (strip_prefix name r) ws_paren)
         [''sometimesBy'', ''sometimes'', ''rarely'', ''almostNever'', ''almostAlways'',
          ''choose'', ''chooseCycles'']))"

definition countRandomUsage :: "string \<Rightarrow> nat" where
  "countRandomUsage src =
     (let count = 0;
          randMatches = match_texts rx_rand src;
          count = count + length randMatches;
          perlinMatches = match_texts rx_perlin src;
          count = count + length perlinMatches;
          probMatches = match_texts rx_prob src;
          count = count + length probMatches
      in count)"

text \<open>\<open>/NAME\s*\(\s*/\<close> and \<open>/NAME\s*\(\s*([\d.]+)/g\<close> for an effect call \<open>NAME\<close>.\<close>

definition rx_call_open :: "string \<Rightarrow> matcher" where
  "rx_call_open name prev s =
     Option.bind (strip_prefix name s) (\<lambda>r.
       Option.bind (ws_paren r) (\<lambda>r1. Some (dropWhile is_space r1)))"

definition is_digit_or_dot :: "char \<Rightarrow> bool" where
  "is_digit_or_dot c \<longleftrightarrow> is_digit c \<or> c = CHR ''.''"

definition rx_call_number :: "string \<Rightarrow> matcher" where
  "rx_call_number name prev s =
     Option.bind (rx_call_open name prev s) (\<lambda>r.
       if takeWhile is_digit_or_dot r = [] then None else Some (dropWhile is_digit_or_dot r))"

text \<open>One of the three loops of \<open>hasExtremeEffects\<close>: some match of the call has a first
  argument above the limit.\<close>

definition effect_above :: "string \<Rightarrow> jsnum \<Rightarrow> string \<Rightarrow> bool" where
  "effect_above name limit src =
     list_ex (\<lambda>m. js_gt (parseFloat (remove_first (rx_call_open name) None m)) limit)
       (match_texts (rx_call_number name) src)"

definition hasExtremeEffects :: "string \<Rightarrow> ValidationConfig \<Rightarrow> bool" where
  "hasExtremeEffects src config =
     (if effect_above ''.delayfeedback'' (maxDelayFeedback config) src then True
      else if effect_above ''.room'' (maxRoomSize config) src then True
      else if effect_above ''.gain'' (Num 2 0) src then True
      else False)"

text \<open>\<open>/["'`][^"'`]*["'`]/g\<close>.\<close>

definition is_quote :: "char \<Rightarrow> bool" where
  "is_quote c \<longleftrightarrow> c = DQ \<or> c = SQ \<or> c = BQ"

definition rx_quoted :: matcher where
  "rx_quoted prev s =
     (case s of
        [] \<Rightarrow> None
      | c # cs \<Rightarrow>
          if is_quote c
          then (case dropWhile (\<lambda>x. \<not> is_quote x) cs of [] \<Rightarrow> None | d # r \<Rightarrow> Some r)
          else None)"

text \<open>The loop over \<open>stringContents\<close> in \<open>getSyntaxIssue\<close>.\<close>

fun angle_issue :: "string list \<Rightarrow> string option" where
  "angle_issue [] = None"
| "angle_issue (str # strs) =
     (let openAngles = count_list str (CHR ''<''); closeAngles = count_list str (CHR ''>'') in
      if openAngles \<noteq> closeAngles
      then Some (''unbalanced mini-notation: '' @ show_nat openAngles @ '' opening '' @ [SQ] @ ''<''
                 @ [SQ] @ '' vs '' @ show_nat closeAngles @ '' closing '' @ [SQ] @ ''>'' @ [SQ]
                 @ '' in pattern'')
      else angle_issue strs)"

definition getSyntaxIssue :: "string \<Rightarrow> string option" where
  "getSyntaxIssue src =
     (let openParens = count_list src (CHR ''(''); closeParens = count_list src (CHR '')'') in
      if openParens \<noteq> closeParens
      then Some (''unbalanced parentheses: '' @ show_nat openParens @ '' opening '' @ [SQ] @ ''(''
                 @ [SQ] @ '' vs '' @ show_nat closeParens @ '' closing '' @ [SQ] @ '')'' @ [SQ])
      else
        let openBrackets = count_list src (CHR ''[''); closeBrackets = count_list src (CHR '']'') in
        if openBrackets \<noteq> closeBrackets
        then Some (''unbalanced brackets: '' @ show_nat openBrackets @ '' opening '' @ [SQ] @ ''[''
                   @ [SQ] @ '' vs '' @ show_nat closeBrackets @ '' closing '' @ [SQ] @ '']'' @ [SQ])
        else
          let openBraces = count_list src (CHR ''{''); closeBraces = count_list src (CHR ''}'') in
          if openBraces \<noteq> closeBraces
          then Some (''unbalanced braces: '' @ show_nat openBraces @ '' opening '' @ [SQ] @ ''{''
                     @ [SQ] @ '' vs '' @ show_nat closeBraces @ '' closing '' @ [SQ] @ ''}'' @ [SQ])
          else
            let stringContents = match_texts rx_quoted src in
            angle_issue stringContents)"

definition effectMethods :: "string list" where
  "effectMethods =
     [''.lpf'', ''.hpf'', ''.bpf'',
      ''.delay'', ''.delaytime'', ''.delayfeedback'',
      ''.room'', ''.size'', ''.dry'',
      ''.crush'', ''.coarse'',
      ''.shape'', ''.distort'',
      ''.vowel'', ''.hcutoff'', ''.hresonance'',
      ''.cutoff'', ''.resonance'',
      ''.pan'', ''.speed'']"

text \<open>
  \<open>new RegExp("\\" + effect.replace(".", "\\."), "g")\<close>. The string literal \<open>"\\"\<close> is one
  backslash and \<open>effect.replace(".", "\\.")\<close> puts a backslash before the leading dot, so
  for \<open>.lpf\<close> the pattern source is backslash, backslash, dot, \<open>lpf\<close>: an escaped
  backslash, then any code unit that is not a line terminator, then the name without its
  dot.
\<close>

definition rx_effect :: "string \<Rightarrow> matcher" where
  "rx_effect effect prev s =
     Option.bind (strip_prefix [BSL] s) (\<lambda>r.
       case r of
         [] \<Rightarrow> None
       | c # cs \<Rightarrow> if is_line_terminator c then None else strip_prefix (tl effect) cs)"

text \<open>\<open>s.includes(needle)\<close>.\<close>

definition includes_str :: "string \<Rightarrow> string \<Rightarrow> bool" where
  "includes_str s needle = regex_test (\<lambda>prev t. strip_prefix needle t) None s"

definition effectCount :: "string \<Rightarrow> nat" where
  "effectCount line = sum_list (map (\<lambda>effect. length (match_texts (rx_effect effect) line)) effectMethods)"

definition checkEffectsDensity :: "string \<Rightarrow> ValidationConfig \<Rightarrow> bool" where
  "checkEffectsDensity src config =
     list_ex (\<lambda>line. includes_str line ''$:'' \<and>
                js_gt (count_num (effectCount line)) (maxEffectsPerVoice config))
       (split_nl src)"

text \<open>\<open>/\.fast\s*\(\s*(\d+)/g\<close>.\<close>

definition rx_fast :: matcher where
  "rx_fast prev s =
     Option.bind (rx_call_open ''.fast'' prev s) (\<lambda>r.
       if takeWhile is_digit r = [] then None else Some (dropWhile is_digit r))"

text \<open>\<open>/note\s*\(\s*"[^"]*"/g\<close>.\<close>

definition rx_note_literal :: matcher where
  "rx_note_literal prev s =
     Option.bind (rx_call_open ''note'' prev s) (\<lambda>r.
       Option.bind (strip_prefix [DQ] r) (\<lambda>r1.
         case dropWhile (\<lambda>c. c \<noteq> DQ) r1 of [] \<Rightarrow> None | d # r2 \<Rightarrow> Some r2))"

text \<open>\<open>/[a-g][#b]?[9]/\<close>.\<close>

definition rx_high_note :: matcher where
  "rx_high_note prev s =
     Option.bind (one_of ''abcdefg'' s) (\<lambda>r.
       first_some [Option.bind (one_of ''#b'' r) (strip_prefix ''9''), strip_prefix ''9'' r])"

text \<open>
  \<open>String.prototype.toLowerCase\<close> on code units below 256: the ASCII capitals and the
  Latin-1 capitals \<open>0xC0\<close> to \<open>0xDE\<close> other than \<open>0xD7\<close> move up by 32.
\<close>

definition to_lower :: "char \<Rightarrow> char" where
  "to_lower c =
     (let n = (of_char c :: nat) in
      if (65 \<le> n \<and> n \<le> 90) \<or> (192 \<le> n \<and> n \<le> 222 \<and> n \<noteq> 215) then char_of (n + 32) else c)"

definition toLowerCase :: "string \<Rightarrow> string" where
  "toLowerCase s = map to_lower s"

definition hasDangerousPatterns :: "string \<Rightarrow> string option" where
  "hasDangerousPatterns src =
     (if list_ex (\<lambda>m. js_gt (parseInt (remove_first (rx_call_open ''.fast'') None m)) (Num 64 0))
           (match_texts rx_fast src)
      then Some ''extremely fast pattern detected (>64x) - may cause audio glitches''
      else if list_ex (\<lambda>m. regex_test rx_high_note None (toLowerCase m))
                (match_texts rx_note_literal src)
      then Some ''extremely high note values detected - may cause issues''
      else None)"

definition validateStrudelCode :: "(int \<Rightarrow> int \<Rightarrow> string) \<Rightarrow> string \<Rightarrow> PartialConfig \<Rightarrow> ValidationResult" where
  "validateStrudelCode render src config =
     (let cfg = merge_config DEFAULT_CONFIG config;
          issues = [];
          voiceCount = countVoices src;
          issues = push_when (js_gt (count_num voiceCount) (maxVoices cfg))
                     (''too many voices ('' @ show_nat voiceCount @ ''/''
                      @ number_text render (maxVoices cfg) @ '' max) - simplify to fewer tracks'')
                     issues;
          lineCount = countLines src;
          issues = push_when (js_gt (count_num lineCount) (maxLines cfg))
                     (''code too long ('' @ show_nat lineCount @ ''/''
                      @ number_text render (maxLines cfg) @ '' lines max) - simplify'')
                     issues;
          issues = push_when (lineCount < 5) ''code too short - add more content'' issues;
          issues = push_when (requireSetcpm cfg \<and> \<not> hasSetcpm src)
                     ''missing setcpm() - set tempo at the start'' issues;
          issues = push_when (rejectLocalhost cfg \<and> hasForbiddenSamples src)
                     ''uses external/localhost samples - only use built-in samples'' issues;
          randomUsage = countRandomUsage src;
          issues = push_when (js_gt (count_num randomUsage) (maxRandomUsage cfg))
                     (''excessive randomness ('' @ show_nat randomUsage @ ''/''
                      @ number_text render (maxRandomUsage cfg)
                      @ '' max) - reduce variation techniques'')
                     issues;
          issues = push_when (hasExtremeEffects src cfg)
                     (''extreme effect values detected - reduce delay feedback (max ''
                      @ number_text render (maxDelayFeedback cfg) @ ''), reverb (max ''
                      @ number_text render (maxRoomSize cfg) @ ''), or gain (max 2.0)'')
                     issues;
          syntaxIssue = getSyntaxIssue src;
          issues = push_text syntaxIssue issues;
          invalidMethodIssues = findInvalidMethodUsage src;
          issues = issues @ invalidMethodIssues;
          issues = push_when (checkEffectsDensity src cfg)
                     (''too many effects on a single voice (max ''
                      @ number_text render (maxEffectsPerVoice cfg)
                      @ '') - simplify effect chains'')
                     issues;
          dangerousPattern = hasDangerousPatterns src;
          issues = push_text dangerousPattern issues
      in \<lparr>valid = (length issues = 0), issues = issues\<rparr>)"

section \<open>The generation orchestrator (src/app/api/claude/route.ts)\<close>

text \<open>The loop of \<open>extractCodeForValidation\<close>: the first block whose trimmed text has more
  than 30 code units.\<close>

fun first_long_block :: "string list \<Rightarrow> string option" where
  "first_long_block [] = None"
| "first_long_block (m # ms) =
     (let code = trim m in
      if code \<noteq> [] \<and> length code > 30 then Some code else first_long_block ms)"

definition extractCodeForValidation :: "string \<Rightarrow> string option" where
  "extractCodeForValidation text =
     (let matches = match_all codeBlockRegex 0 None text in
      if length matches = 0 then None else first_long_block matches)"

text \<open>\<open>getConfigValues\<close> (src/lib/creativeDirectives.ts) and the overrides that \<open>POST\<close> passes
  to the validator.\<close>

definition request_overrides :: PartialConfig where
  "request_overrides =
     \<lparr>maxVoices_opt = Some (Num 6 0), maxLines_opt = Some (Num 150 0),
      maxRandomUsage_opt = Some (Num 4 0), maxEffectsPerVoice_opt = None,
      requireSetcpm_opt = None, rejectLocalhost_opt = None,
      maxDelayFeedback_opt = None, maxRoomSize_opt = None\<rparr>"

definition buildRetryPrompt :: "string \<Rightarrow> string list \<Rightarrow> string" where
  "buildRetryPrompt userRequest issue_list =
     (let issueList = join_nl (map (\<lambda>i. ''- '' @ i) issue_list) in
      userRequest @ ''\<newline>\<newline>your previous attempt had issues:\<newline>'' @ issueList
      @ ''\<newline>\<newline>IMPORTANT: do not call methods on strings (e.g., \"1 0 1\".euclidean(...)); apply transforms to patterns, not string literals. Do not use .euclidean() (not available in this build).''
      @ ''\<newline>\<newline>return to first principles:\<newline>1. what should the listener feel? (be specific)\<newline>2. what is the musical intention? (not the technique)''
      @ ''\<newline>\<newline>then simplify:\<newline>- reduce to 3-6 voices\<newline>- remove randomness that doesn'' @ [SQ]
      @ ''t serve the mood\<newline>- remove effects that don'' @ [SQ]
      @ ''t serve the feeling\<newline>- subtraction is a sign of taste'')"

definition buildEditContext :: "string \<Rightarrow> string \<Rightarrow> string" where
  "buildEditContext current userRequest =
     ''you are editing an existing strudel composition. here is the current code:\<newline>\<newline>''
     @ fence @ ''javascript\<newline>'' @ current @ ''\<newline>'' @ fence
     @ ''\<newline>\<newline>modify this code according to the user'' @ [SQ]
     @ ''s request. return the FULL updated script, not a diff or patch. preserve the overall structure unless the user explicitly asks to change it.''
     @ ''\<newline>\<newline>user request: '' @ userRequest
     @ ''\<newline>\<newline>requirements:\<newline>- output the complete modified code\<newline>- keep setcpm(...) at the start\<newline>- maintain 3-6 voices with $:\<newline>- preserve what works, change what'' @ [SQ]
     @ ''s requested\<newline>- single javascript code block only''"

text \<open>
  The provider. A call starts one streamed completion; the stream delivers items and then
  either ends or throws. A thrown value is an \<open>Error\<close> with its message or something else.
  A client answers a call from the number of calls made before it on this request and the
  two prompts: nothing is assumed about what the model returns.
\<close>

datatype provider_name = anthropic | openai

datatype thrown = Error string | NonError

datatype stream_item = text_delta string | other_item

record completion =
  items :: "stream_item list"
  failure :: "thrown option"

type_synonym client = "nat \<Rightarrow> string \<Rightarrow> string \<Rightarrow> completion"

text \<open>The events of the outbound stream; \<open>DONE\<close> is the terminal marker.\<close>

datatype event =
  content_block_delta string
| status string
| clear
| error_event string
| DONE

text \<open>
  The state of one request: the events enqueued on the controller, whether it is closed,
  and two logs that the source does not keep: the user prompts of the streams started and
  the artifacts given to \<open>validateStrudelCode\<close>.
\<close>

record run_state =
  enqueued :: "event list"
  closed :: bool
  started :: "string list"
  validated :: "string list"

definition enqueue :: "event \<Rightarrow> run_state \<Rightarrow> run_state" where
  "enqueue e st = st\<lparr>enqueued := enqueued st @ [e]\<rparr>"

text \<open>The texts a stream forwards: the non-empty text deltas.\<close>

fun delta_texts :: "stream_item list \<Rightarrow> string list" where
  "delta_texts [] = []"
| "delta_texts (text_delta t # r) = (if t \<noteq> [] then t # delta_texts r else delta_texts r)"
| "delta_texts (other_item # r) = delta_texts r"

text \<open>
  \<open>streamClaude\<close> and \<open>streamOpenAI\<close> differ only in the shape of the provider's items: each
  forwards every non-empty text delta as a \<open>content_block_delta\<close> event and returns the
  concatenated text, unless the stream throws.
\<close>

definition stream_text :: "client \<Rightarrow> string \<Rightarrow> string \<Rightarrow> run_state \<Rightarrow> (thrown + string) \<times> run_state" where
  "stream_text cl sys usr st =
     (let c = cl (length (started st)) sys usr;
          texts = delta_texts (items c);
          st' = st\<lparr>started := started st @ [usr],
                    enqueued := enqueued st @ map content_block_delta texts\<rparr>
      in (case failure c of Some t \<Rightarrow> (Inl t, st') | None \<Rightarrow> (Inr (concat texts), st')))"

definition streamClaude :: "client \<Rightarrow> string \<Rightarrow> string \<Rightarrow> run_state \<Rightarrow> (thrown + string) \<times> run_state" where
  "streamClaude = stream_text"

definition streamOpenAI :: "client \<Rightarrow> string \<Rightarrow> string \<Rightarrow> run_state \<Rightarrow> (thrown + string) \<times> run_state" where
  "streamOpenAI = stream_text"

text \<open>The variables of \<open>POST\<close> that the stream's \<open>start\<close> callback closes over.\<close>

record request =
  provider :: provider_name
  anthropicClient :: "client option"
  openaiClient :: "client option"
  systemPrompt :: string
  userPrompt :: string
  prompt :: string
  mode :: string
  currentCode :: "string option"

text \<open>The message of the \<open>catch\<close> block.\<close>

definition errorMessage :: "thrown \<Rightarrow> string" where
  "errorMessage t =
     (case t of
        NonError \<Rightarrow> ''stream error''
      | Error message \<Rightarrow>
          let msg = toLowerCase message in
          if includes_str msg ''authentication'' \<or> includes_str msg ''invalid api key''
             \<or> includes_str msg ''invalid x-api-key'' \<or> includes_str msg ''401''
             \<or> includes_str msg ''unauthorized''
          then ''This API key does not exist. Please check your API key in Settings.''
          else if includes_str msg ''model'' \<or> includes_str msg ''not found''
                  \<or> includes_str msg ''does not exist''
          then ''Model error: '' @ message @ ''. Please select a valid model in Settings.''
          else message)"

text \<open>The first attempt.\<close>

definition first_attempt :: "request \<Rightarrow> run_state \<Rightarrow> (thrown + string) \<times> run_state" where
  "first_attempt rq st =
     (case (provider rq, openaiClient rq) of
        (openai, Some oc) \<Rightarrow> streamOpenAI oc (systemPrompt rq) (userPrompt rq) st
      | _ \<Rightarrow>
          (case anthropicClient rq of
             Some ac \<Rightarrow> streamClaude ac (systemPrompt rq) (userPrompt rq) st
           | None \<Rightarrow> (Inl (Error ''No valid API client configured''), st)))"

text \<open>The second attempt: the same choice of client, without the final \<open>throw\<close>.\<close>

definition second_attempt :: "request \<Rightarrow> string \<Rightarrow> run_state \<Rightarrow> (thrown + string) \<times> run_state" where
  "second_attempt rq retryUserPrompt st =
     (case (provider rq, openaiClient rq) of
        (openai, Some oc) \<Rightarrow> streamOpenAI oc (systemPrompt rq) retryUserPrompt st
      | _ \<Rightarrow>
          (case anthropicClient rq of
             Some ac \<Rightarrow> streamClaude ac (systemPrompt rq) retryUserPrompt st
           | None \<Rightarrow> (Inr [], st)))"

definition finish :: "run_state \<Rightarrow> (thrown + unit) \<times> run_state" where
  "finish st = (Inr (), (enqueue DONE st)\<lparr>closed := True\<rparr>)"

text \<open>
  The \<open>try\<close> block of \<open>start\<close>. \<open>buildUserPrompt\<close> reads the reference dataset, which is
  not part of the sources at hand, and is a parameter, as is the rendering of fractional
  numbers in issue texts.
\<close>

definition try_block ::
  "(int \<Rightarrow> int \<Rightarrow> string) \<Rightarrow> (string \<Rightarrow> string) \<Rightarrow> request \<Rightarrow> run_state \<Rightarrow> (thrown + unit) \<times> run_state" where
  "try_block render buildUserPrompt rq st =
     (case first_attempt rq st of
        (Inl t, st1) \<Rightarrow> (Inl t, st1)
      | (Inr fullText, st1) \<Rightarrow>
          (case extractCodeForValidation fullText of
             None \<Rightarrow> finish st1
           | Some extractedCode \<Rightarrow>
               if extractedCode = [] then finish st1
               else
                 let validation = validateStrudelCode render extractedCode request_overrides;
                     st2 = st1\<lparr>validated := validated st1 @ [extractedCode]\<rparr>
                 in
                 if \<not> valid validation then
                   let st3 = enqueue (status ''simplifying...'') st2;
                       retryPrompt = buildRetryPrompt (prompt rq) (issues validation);
                       retryUserPrompt =
                         (case currentCode rq of
                            Some cc \<Rightarrow>
                              if mode rq = ''edit'' \<and> cc \<noteq> [] \<and> trim cc \<noteq> []
                              then buildEditContext cc retryPrompt
                              else buildUserPrompt retryPrompt
                          | None \<Rightarrow> buildUserPrompt retryPrompt);
                       st4 = enqueue clear st3
                   in
                   (case second_attempt rq retryUserPrompt st4 of
                      (Inl t, st5) \<Rightarrow> (Inl t, st5)
                    | (Inr secondText, st5) \<Rightarrow> finish st5)
                 else finish st2))"

definition initial_state :: run_state where
  "initial_state = \<lparr>enqueued = [], closed = False, started = [], validated = []\<rparr>"

text \<open>The callback \<open>start(controller)\<close> with its \<open>catch\<close> block.\<close>

definition start ::
  "(int \<Rightarrow> int \<Rightarrow> string) \<Rightarrow> (string \<Rightarrow> string) \<Rightarrow> request \<Rightarrow> run_state" where
  "start render buildUserPrompt rq =
     (case try_block render buildUserPrompt rq initial_state of
        (Inr u, st) \<Rightarrow> st
      | (Inl t, st) \<Rightarrow> (enqueue (error_event (errorMessage t)) st)\<lparr>closed := True\<rparr>)"

section \<open>The caller of the orchestrator (the chat panel)\<close>

text \<open>
  The caller reads the response body chunk by chunk. Each chunk is decoded and split at
  line breaks on its own; nothing of a chunk is kept for the next one. A line of a chunk is
  therefore either \<open>data: \<close> followed by the JSON text of one whole event, or something
  else: an empty line, or a piece of an event whose text a chunk boundary has cut. Such a
  piece does not start with \<open>data: \<close>, or its JSON text does not parse (the parse error
  is swallowed), so the event it belongs to is lost.
\<close>

datatype line = data event | other_line

type_synonym chunk = "line list"

text \<open>The body of the \<open>try\<close> block for one parsed event: text deltas accumulate, \<open>clear\<close>
  empties the accumulated text, an \<open>error\<close> event throws (the throw is swallowed when the
  message contains \<open>JSON\<close>), \<open>[DONE]\<close> and \<open>status\<close> leave the text alone.\<close>

fun handle_event :: "string \<Rightarrow> event \<Rightarrow> string + string" where
  "handle_event acc (content_block_delta t) = Inr (if t \<noteq> [] then acc @ t else acc)"
| "handle_event acc (status s) = Inr acc"
| "handle_event acc clear = Inr []"
| "handle_event acc (error_event m) =
     (let msg = (if m \<noteq> [] then m else ''stream error'') in
      if includes_str msg ''JSON'' then Inr acc else Inl msg)"
| "handle_event acc DONE = Inr acc"

text \<open>The inner loop, over the lines of one chunk.\<close>

fun read_lines :: "string \<Rightarrow> chunk \<Rightarrow> string + string" where
  "read_lines acc [] = Inr acc"
| "read_lines acc (other_line # ls) = read_lines acc ls"
| "read_lines acc (data e # ls) =
     (case handle_event acc e of
        Inl m \<Rightarrow> Inl m
      | Inr acc' \<Rightarrow> read_lines acc' ls)"

text \<open>The outer loop, over the chunks of the body.\<close>

fun receive :: "string \<Rightarrow> chunk list \<Rightarrow> string + string" where
  "receive acc [] = Inr acc"
| "receive acc (c # cs) =
     (case read_lines acc c of
        Inl m \<Rightarrow> Inl m
      | Inr acc' \<Rightarrow> receive acc' cs)"

text \<open>What the caller does with the accumulated text: the error it raises, or the code it
  applies.\<close>

definition apply_text :: "string \<Rightarrow> string + string" where
  "apply_text fullText =
     (if fullText = [] \<or> trim fullText = []
      then Inl ''Empty response from AI. The model may be overloaded - please try again.''
      else
        let parseResult = parseClaudeOutput fullText in
        (case code parseResult of
           Some newCode \<Rightarrow>
             if success parseResult \<and> newCode \<noteq> [] then Inr newCode
             else Inl (case error parseResult of
                         Some e \<Rightarrow> if e \<noteq> [] then e else ''The AI response didn'' @ [SQ] @ ''t contain valid code''
                       | None \<Rightarrow> ''The AI response didn'' @ [SQ] @ ''t contain valid code'')
         | None \<Rightarrow>
             Inl (case error parseResult of
                    Some e \<Rightarrow> if e \<noteq> [] then e else ''The AI response didn'' @ [SQ] @ ''t contain valid code''
                  | None \<Rightarrow> ''The AI response didn'' @ [SQ] @ ''t contain valid code'')))"

text \<open>The whole of the caller: the error it raises, or the code it applies.\<close>

definition caller_outcome :: "chunk list \<Rightarrow> string + string" where
  "caller_outcome chunks =
     (case receive [] chunks of
        Inl m \<Rightarrow> Inl m
      | Inr fullText \<Rightarrow> apply_text fullText)"

section \<open>Auxiliary notions for the statements\<close>

text \<open>The matches of the fenced-block pattern that \<open>parseClaudeOutput\<close> counts.\<close>

definition fenced_blocks :: "string \<Rightarrow> string list" where
  "fenced_blocks response = match_all codeBlockRegex 0 None (trim response)"

text \<open>Some adjacent pair of code units satisfies \<open>P\<close>.\<close>

fun has_pair :: "(char \<Rightarrow> char \<Rightarrow> bool) \<Rightarrow> string \<Rightarrow> bool" where
  "has_pair P (a # b # cs) = (P a b \<or> has_pair P (b # cs))"
| "has_pair P cs = False"

text \<open>The text contains two backslashes followed by the quote \<open>q\<close>.\<close>

fun has_triple :: "char \<Rightarrow> string \<Rightarrow> bool" where
  "has_triple q (a # b # c # cs) = ((a = BSL \<and> b = BSL \<and> c = q) \<or> has_triple q (b # c # cs))"
| "has_triple q cs = False"

definition escaped_backslash_before_quote :: "string \<Rightarrow> bool" where
  "escaped_backslash_before_quote s \<longleftrightarrow> has_triple DQ s \<or> has_triple SQ s"

text \<open>The trimmed non-empty lines that \<open>normalize\<close> joins.\<close>

definition norm_lines :: "string \<Rightarrow> string list" where
  "norm_lines s = filter (\<lambda>line. length line > 0) (map trim (split_nl s))"

text \<open>A position between \<open>p\<close> and \<open>s\<close> that is the start or the end of a line.\<close>

definition line_boundary :: "string \<Rightarrow> string \<Rightarrow> bool" where
  "line_boundary p s \<longleftrightarrow> p = [] \<or> last p = LF \<or> s = [] \<or> hd s = LF"

text \<open>
  The ten rules of the validator, each as the list of issue texts it contributes, in the
  order in which \<open>validateStrudelCode\<close> runs them.
\<close>

type_synonym rule = "(int \<Rightarrow> int \<Rightarrow> string) \<Rightarrow> ValidationConfig \<Rightarrow> string \<Rightarrow> string list"

definition rule_voice_count :: rule where
  "rule_voice_count render cfg src =
     (if js_gt (count_num (countVoices src)) (maxVoices cfg)
      then [''too many voices ('' @ show_nat (countVoices src) @ ''/''
            @ number_text render (maxVoices cfg) @ '' max) - simplify to fewer tracks'']
      else [])"

definition rule_line_budget :: rule where
  "rule_line_budget render cfg src =
     (if js_gt (count_num (countLines src)) (maxLines cfg)
      then [''code too long ('' @ show_nat (countLines src) @ ''/''
            @ number_text render (maxLines cfg) @ '' lines max) - simplify'']
      else [])
     @ (if countLines src < 5 then [''code too short - add more content''] else [])"

definition rule_tempo :: rule where
  "rule_tempo render cfg src =
     (if requireSetcpm cfg \<and> \<not> hasSetcpm src
      then [''missing setcpm() - set tempo at the start''] else [])"

definition rule_forbidden_samples :: rule where
  "rule_forbidden_samples render cfg src =
     (if rejectLocalhost cfg \<and> hasForbiddenSamples src
      then [''uses external/localhost samples - only use built-in samples''] else [])"

definition randomness_issue :: "(int \<Rightarrow> int \<Rightarrow> string) \<Rightarrow> ValidationConfig \<Rightarrow> string \<Rightarrow> string" where
  "randomness_issue render cfg src =
     ''excessive randomness ('' @ show_nat (countRandomUsage src) @ ''/''
     @ number_text render (maxRandomUsage cfg) @ '' max) - reduce variation techniques''"

definition rule_randomness :: rule where
  "rule_randomness render cfg src =
     (if js_gt (count_num (countRandomUsage src)) (maxRandomUsage cfg)
      then [randomness_issue render cfg src] else [])"

definition extreme_effect_issue :: "(int \<Rightarrow> int \<Rightarrow> string) \<Rightarrow> ValidationConfig \<Rightarrow> string" where
  "extreme_effect_issue render cfg =
     ''extreme effect values detected - reduce delay feedback (max ''
     @ number_text render (maxDelayFeedback cfg) @ ''), reverb (max ''
     @ number_text render (maxRoomSize cfg) @ ''), or gain (max 2.0)''"

definition rule_extreme_effects :: rule where
  "rule_extreme_effects render cfg src =
     (if hasExtremeEffects src cfg then [extreme_effect_issue render cfg] else [])"

definition rule_syntax_balance :: rule where
  "rule_syntax_balance render cfg src =
     (case getSyntaxIssue src of None \<Rightarrow> [] | Some m \<Rightarrow> if m \<noteq> [] then [m] else [])"

definition rule_invalid_methods :: rule where
  "rule_invalid_methods render cfg src = findInvalidMethodUsage src"

definition rule_effect_density :: rule where
  "rule_effect_density render cfg src =
     (if checkEffectsDensity src cfg
      then [''too many effects on a single voice (max ''
            @ number_text render (maxEffectsPerVoice cfg) @ '') - simplify effect chains'']
      else [])"

definition rule_dangerous_patterns :: rule where
  "rule_dangerous_patterns render cfg src =
     (case hasDangerousPatterns src of None \<Rightarrow> [] | Some m \<Rightarrow> if m \<noteq> [] then [m] else [])"

definition rule_checks :: "rule list" where
  "rule_checks =
     [rule_voice_count, rule_line_budget, rule_tempo, rule_forbidden_samples, rule_randomness,
      rule_extreme_effects, rule_syntax_balance, rule_invalid_methods, rule_effect_density,
      rule_dangerous_patterns]"

text \<open>The issue texts of the randomness rule, of the extreme-effects rule and of the
  angle-bracket check.\<close>

definition is_extreme_effect_issue :: "string \<Rightarrow> bool" where
  "is_extreme_effect_issue i \<longleftrightarrow> startsWith i ''extreme effect''"

definition is_randomness_issue :: "string \<Rightarrow> bool" where
  "is_randomness_issue i \<longleftrightarrow> startsWith i ''excessive randomness''"

definition is_mini_notation_issue :: "string \<Rightarrow> bool" where
  "is_mini_notation_issue i \<longleftrightarrow> startsWith i ''unbalanced mini-notation''"

text \<open>The number texts of the calls of an effect that \<open>hasExtremeEffects\<close> finds: for each
  match of the call pattern, what is left of it after the method name and the opening
  parenthesis.\<close>

definition call_arguments :: "string \<Rightarrow> string \<Rightarrow> string list" where
  "call_arguments name src =
     map (remove_first (rx_call_open name) None) (match_texts (rx_call_number name) src)"


text \<open>
  The string literals of a text, in the sense of the comment of \<open>getSyntaxIssue\<close>
  (\<open>inside string literals\<close>) and as the sibling pattern \<open>stringMethodPattern\<close> pairs
  quotes: a literal opens with a quote character and closes at the next occurrence of the
  same quote character that no backslash escapes. \<open>closing q s\<close> is the body of a literal
  opened by \<open>q\<close> just before \<open>s\<close>, with the text after its closing quote; an opening quote
  that is never closed starts no literal.
\<close>

fun closing :: "char \<Rightarrow> string \<Rightarrow> (string \<times> string) option" where
  "closing q [] = None"
| "closing q [c] = (if c = q then Some ([], []) else None)"
| "closing q (c # d # ds) =
     (if c = q then Some ([], d # ds)
      else if c = BSL then map_option (\<lambda>(b, r). (c # d # b, r)) (closing q ds)
      else map_option (\<lambda>(b, r). (c # b, r)) (closing q (d # ds)))"





text \<open>Example artifacts.\<close>

definition many_failures :: string where
  "many_failures = ''$: s(\"a\".fast(65).room(0.99).note(1)''"

definition nine_random :: string where
  "nine_random =
     ''setcpm(60)\<newline>$: s(\"bd\").gain(rand()).pan(irand(4))\<newline>  .sometimes(hurry)\<newline>  .rarely(rev)\<newline>  .sometimesBy(0.3, rev)\<newline>  .lpf(perlin.range(200, 900))\<newline>  .shape(perlin)\<newline>  .chooseCycles(\"a\", \"b\")\<newline>  .n(rand())''"

definition sixteen_random :: string where
  "sixteen_random =
     ''setcpm(120)\<newline>$: s(\"bd\").gain(rand()).delay(rand()).room(rand()).hpf(rand()).lpf(rand()).lpq(rand()).pan(rand()).shape(rand())\<newline>$: note(\"c4\").s(\"piano\").gain(rand()).delay(rand()).room(rand()).crush(rand()).coarse(rand()).shape(rand()).pan(rand()).lpf(rand())''"

definition room_artifact :: "string \<Rightarrow> string" where
  "room_artifact v =
     ''setcpm(60)\<newline>$: s(\"bd\")\<newline>  .room('' @ v @ '')\<newline>  .gain(0.5)\<newline>  .pan(0.5)''"




definition swallowed_room_call :: "string \<Rightarrow> string" where
  "swallowed_room_call v = room_artifact (''0.room('' @ v @ '')'')"

definition loud_room_artifact :: string where
  "loud_room_artifact =
     ''setcpm(60)\<newline>$: s(\"bd\")\<newline>  .room(0.95)\<newline>  .gain(3)\<newline>  .pan(0.5)''"



text \<open>The client that both attempts of a request use.\<close>

definition active_client :: "request \<Rightarrow> client option" where
  "active_client rq =
     (case (provider rq, openaiClient rq) of
        (openai, Some oc) \<Rightarrow> Some oc
      | _ \<Rightarrow> anthropicClient rq)"

text \<open>The user prompt of the retry, built from the issues of the first attempt.\<close>

definition retry_user_prompt :: "(string \<Rightarrow> string) \<Rightarrow> request \<Rightarrow> string list \<Rightarrow> string" where
  "retry_user_prompt buildUserPrompt rq issue_list =
     (case currentCode rq of
        Some cc \<Rightarrow>
          if mode rq = ''edit'' \<and> cc \<noteq> [] \<and> trim cc \<noteq> []
          then buildEditContext cc (buildRetryPrompt (prompt rq) issue_list)
          else buildUserPrompt (buildRetryPrompt (prompt rq) issue_list)
      | None \<Rightarrow> buildUserPrompt (buildRetryPrompt (prompt rq) issue_list))"

text \<open>The event that ends a stream: the terminal marker, or the error of a stream that threw.\<close>

definition closing_event :: "completion \<Rightarrow> event" where
  "closing_event c = (case failure c of None \<Rightarrow> DONE | Some t \<Rightarrow> error_event (errorMessage t))"

fun is_status :: "event \<Rightarrow> bool" where
  "is_status (status s) = True"
| "is_status e = False"

fun is_clear :: "event \<Rightarrow> bool" where
  "is_clear clear = True"
| "is_clear e = False"

fun is_error_event :: "event \<Rightarrow> bool" where
  "is_error_event (error_event m) = True"
| "is_error_event e = False"

text \<open>
  The events that reach the caller whole, in their order, and the caller's handling of a
  sequence of whole events. An event is lost when a chunk boundary cuts its text.
\<close>

fun line_events :: "chunk \<Rightarrow> event list" where
  "line_events [] = []"
| "line_events (data e # ls) = e # line_events ls"
| "line_events (other_line # ls) = line_events ls"

definition whole_events :: "chunk list \<Rightarrow> event list" where
  "whole_events chunks = concat (map line_events chunks)"

fun read_events :: "string \<Rightarrow> event list \<Rightarrow> string + string" where
  "read_events acc [] = Inr acc"
| "read_events acc (e # es) =
     (case handle_event acc e of
        Inl m \<Rightarrow> Inl m
      | Inr acc' \<Rightarrow> read_events acc' es)"

text \<open>A delivery in which every event arrives in a chunk of its own, as the orchestrator
  enqueues it: the line of the event and the two empty lines after it.\<close>

definition one_per_chunk :: "event list \<Rightarrow> chunk list" where
  "one_per_chunk es = map (\<lambda>e. [data e, other_line, other_line]) es"

text \<open>A delivery of the stream of a retried request in which a chunk boundary cuts the text
  of the \<open>clear\<close> event: its first piece is the last line of the second chunk, its
  second piece the first line of the third, and neither is an event.\<close>

definition clear_cut :: "string \<Rightarrow> string \<Rightarrow> chunk list" where
  "clear_cut first second =
     [[data (content_block_delta first), other_line, other_line],
      [data (status ''simplifying...''), other_line, other_line],
      [other_line, other_line, other_line],
      [data (content_block_delta second), other_line, other_line],
      [data DONE, other_line, other_line]]"

text \<open>Example data: a rendering of fractional numbers, a prompt builder, some texts of a
  provider, and a request whose provider answers the first call with one fixed text and
  every later call with another.\<close>

definition plain_render :: "int \<Rightarrow> int \<Rightarrow> string" where
  "plain_render m e = ''?''"

definition plain_prompt :: "string \<Rightarrow> string" where
  "plain_prompt userRequest = userRequest"

definition unfenced_text :: string where
  "unfenced_text = ''setcpm(120)\<newline>$: s(\"bd\")''"

definition fenced_invalid_text :: string where
  "fenced_invalid_text =
     fence @ ''js\<newline>setcpm(120)\<newline>$: s(\"bd\").fast(65).room(0.99)\<newline>'' @ fence"

definition fenced_extreme_text :: string where
  "fenced_extreme_text =
     fence @ ''js\<newline>setcpm(120)\<newline>$: s(\"bd\").room(0.99)\<newline>'' @ fence"

definition two_blocks_text :: string where
  "two_blocks_text =
     fenced_invalid_text @ ''\<newline>or\<newline>'' @ fence @ ''js\<newline>setcpm(90)\<newline>'' @ fence"

definition fixed_client :: "string \<Rightarrow> string \<Rightarrow> client" where
  "fixed_client first second n sys usr =
     (if n = 0 then \<lparr>items = [text_delta first], failure = None\<rparr>
      else \<lparr>items = [other_item, text_delta second, text_delta []], failure = None\<rparr>)"

definition example_request :: "string \<Rightarrow> string \<Rightarrow> request" where
  "example_request first second =
     \<lparr>provider = anthropic, anthropicClient = Some (fixed_client first second),
      openaiClient = None,
      systemPrompt = ''system'', userPrompt = ''make a beat'', prompt = ''a beat'',
      mode = ''new'', currentCode = None\<rparr>"

section \<open>Properties of the output parser\<close>

subsection \<open>The result record\<close>

lemma validateCodeContent_error:
  "\<not> cv_valid (validateCodeContent s) \<Longrightarrow> cv_error (validateCodeContent s) \<noteq> None"
  by (simp add: validateCodeContent_def Let_def split: if_splits)


text \<open>
  Claim C6. On every path of \<open>parseClaudeOutput\<close> exactly one of \<open>code\<close> and \<open>error\<close> is
  non-null: a successful result carries a code and no error, a failed result carries an
  error and no code.
\<close>

theorem parseClaudeOutput_exactly_one:
  "(success (parseClaudeOutput response) \<longrightarrow>
      code (parseClaudeOutput response) \<noteq> None \<and> error (parseClaudeOutput response) = None) \<and>
   (\<not> success (parseClaudeOutput response) \<longrightarrow>
      code (parseClaudeOutput response) = None \<and> error (parseClaudeOutput response) \<noteq> None)"
  using validateCodeContent_error
  by (simp add: parseClaudeOutput_def Let_def)

theorem parseClaudeOutput_exactly_one_witness:
  "success (parseClaudeOutput ''setcpm(120)\<newline>$: s(\"bd\")'')
   \<and> code (parseClaudeOutput ''setcpm(120)\<newline>$: s(\"bd\")'') \<noteq> None
   \<and> error (parseClaudeOutput ''setcpm(120)\<newline>$: s(\"bd\")'') = None
   \<and> \<not> success (parseClaudeOutput ''hi'')
   \<and> code (parseClaudeOutput ''hi'') = None
   \<and> error (parseClaudeOutput ''hi'') \<noteq> None"
proof -
  have s: "success (parseClaudeOutput ''setcpm(120)\<newline>$: s(\"bd\")'')"
    by code_simp
  have f: "\<not> success (parseClaudeOutput ''hi'')"
    by code_simp
  from s f parseClaudeOutput_exactly_one [of "''setcpm(120)\<newline>$: s(\"bd\")''"]
    parseClaudeOutput_exactly_one [of "''hi''"]
  show ?thesis by blast
qed

subsection \<open>The case analysis on the number of fenced blocks\<close>

text \<open>Every blank response gets the same answer, before any block is counted.\<close>

lemma parseClaudeOutput_blank:
  "trim response = [] \<Longrightarrow>
   parseClaudeOutput response =
     \<lparr>success = False, code = None, error = Some ''empty response'',
      rawResponse = Some response\<rparr>"
  by (simp add: parseClaudeOutput_def)

text \<open>
  Claim C5, as stated, fails on a blank response: it has no fenced block and matches no
  heuristic marker, but the guard at the head of \<open>parseClaudeOutput\<close> answers
  \<open>empty response\<close> before any block is counted.
\<close>

theorem parseClaudeOutput_blank_response:
  "fenced_blocks [] = []
   \<and> \<not> looksLikeStrudelCode (trim [])
   \<and> error (parseClaudeOutput []) = Some ''empty response''
   \<and> error (parseClaudeOutput []) \<noteq> Some ''no code block found in response''
   \<and> fenced_blocks '' '' = []
   \<and> \<not> looksLikeStrudelCode (trim '' '')
   \<and> error (parseClaudeOutput '' '') = Some ''empty response''"
  by code_simp

text \<open>
  Claim C5, amended. For a response that is not blank, \<open>parseClaudeOutput\<close> decides on the
  number of fenced blocks of the trimmed text. With no block, the trimmed text is taken as
  the artifact (checked by \<open>validateCodeContent\<close>, then cleaned) when at least two of the
  five heuristic patterns match it, and otherwise the result is the error
  \<open>no code block found in response\<close>. With more than one block the error names the count.
  With exactly one block whose inner text trims to the empty string the error is
  \<open>code block is empty\<close>.
\<close>

theorem parseClaudeOutput_cases:
  assumes "trim response \<noteq> []"
  shows "(looksLikeStrudelCode (trim response) \<longleftrightarrow>
            2 \<le> length (filter (\<lambda>p. regex_test p None (trim response))
                    [rx_setcpm, rx_voice, rx_call ''note'', rx_call ''s'', rx_call ''.gain'']))
       \<and> (fenced_blocks response = [] \<and> looksLikeStrudelCode (trim response) \<longrightarrow>
            parseClaudeOutput response =
              (if cv_valid (validateCodeContent (trim response))
               then \<lparr>success = True, code = Some (cleanCode (trim response)), error = None,
                     rawResponse = None\<rparr>
               else \<lparr>success = False, code = None,
                     error = cv_error (validateCodeContent (trim response)),
                     rawResponse = Some response\<rparr>))
       \<and> (fenced_blocks response = [] \<and> \<not> looksLikeStrudelCode (trim response) \<longrightarrow>
            parseClaudeOutput response =
              \<lparr>success = False, code = None, error = Some ''no code block found in response'',
               rawResponse = Some response\<rparr>)
       \<and> (length (fenced_blocks response) > 1 \<longrightarrow>
            parseClaudeOutput response =
              \<lparr>success = False, code = None,
               error = Some (''found '' @ show_nat (length (fenced_blocks response))
                             @ '' code blocks, expected exactly 1''),
               rawResponse = Some response\<rparr>)
       \<and> (length (fenced_blocks response) = 1 \<and> trim (hd (fenced_blocks response)) = [] \<longrightarrow>
            parseClaudeOutput response =
              \<lparr>success = False, code = None, error = Some ''code block is empty'',
               rawResponse = Some response\<rparr>)"
proof -
  from assms have "response \<noteq> []" by (auto simp: trim_def)
  with assms show ?thesis
    by (auto simp: parseClaudeOutput_def fenced_blocks_def looksLikeStrudelCode_def
        heuristic_patterns_def Let_def)
qed

theorem parseClaudeOutput_cases_witness:
  "parseClaudeOutput ''setcpm(120)\<newline>$: s(\"bd\")'' =
     \<lparr>success = True, code = Some ''setcpm(120)\<newline>$: s(\"bd\")'', error = None,
      rawResponse = None\<rparr>
   \<and> parseClaudeOutput ''hi'' =
     \<lparr>success = False, code = None, error = Some ''no code block found in response'',
      rawResponse = Some ''hi''\<rparr>
   \<and> parseClaudeOutput (fence @ ''a'' @ fence @ fence @ ''b'' @ fence) =
     \<lparr>success = False, code = None, error = Some ''found 2 code blocks, expected exactly 1'',
      rawResponse = Some (fence @ ''a'' @ fence @ fence @ ''b'' @ fence)\<rparr>
   \<and> parseClaudeOutput (fence @ ''js\<newline>  \<newline>'' @ fence) =
     \<lparr>success = False, code = None, error = Some ''code block is empty'',
      rawResponse = Some (fence @ ''js\<newline>  \<newline>'' @ fence)\<rparr>"
proof -
  have a: "trim ''setcpm(120)\<newline>$: s(\"bd\")'' \<noteq> []"
    "fenced_blocks ''setcpm(120)\<newline>$: s(\"bd\")'' = []"
    "looksLikeStrudelCode (trim ''setcpm(120)\<newline>$: s(\"bd\")'')"
    "cv_valid (validateCodeContent (trim ''setcpm(120)\<newline>$: s(\"bd\")''))"
    "cleanCode (trim ''setcpm(120)\<newline>$: s(\"bd\")'') = ''setcpm(120)\<newline>$: s(\"bd\")''"
    by code_simp+
  have b: "trim ''hi'' \<noteq> []" "fenced_blocks ''hi'' = []" "\<not> looksLikeStrudelCode (trim ''hi'')"
    by code_simp+
  have c: "trim (fence @ ''a'' @ fence @ fence @ ''b'' @ fence) \<noteq> []"
    "length (fenced_blocks (fence @ ''a'' @ fence @ fence @ ''b'' @ fence)) = 2"
    by code_simp+
  have d: "trim (fence @ ''js\<newline>  \<newline>'' @ fence) \<noteq> []"
    "length (fenced_blocks (fence @ ''js\<newline>  \<newline>'' @ fence)) = 1"
    "trim (hd (fenced_blocks (fence @ ''js\<newline>  \<newline>'' @ fence))) = []"
    by code_simp+
  have two: "show_nat 2 = ''2''"
    by (simp add: show_nat.simps)
  from a parseClaudeOutput_cases [OF a(1)]
  have 1: "parseClaudeOutput ''setcpm(120)\<newline>$: s(\"bd\")'' =
     \<lparr>success = True, code = Some ''setcpm(120)\<newline>$: s(\"bd\")'', error = None,
      rawResponse = None\<rparr>"
    by simp
  from b parseClaudeOutput_cases [OF b(1)]
  have 2: "parseClaudeOutput ''hi'' =
     \<lparr>success = False, code = None, error = Some ''no code block found in response'',
      rawResponse = Some ''hi''\<rparr>"
    by simp
  from c two parseClaudeOutput_cases [OF c(1)]
  have 3: "parseClaudeOutput (fence @ ''a'' @ fence @ fence @ ''b'' @ fence) =
     \<lparr>success = False, code = None, error = Some ''found 2 code blocks, expected exactly 1'',
      rawResponse = Some (fence @ ''a'' @ fence @ fence @ ''b'' @ fence)\<rparr>"
    by simp
  from d parseClaudeOutput_cases [OF d(1)]
  have 4: "parseClaudeOutput (fence @ ''js\<newline>  \<newline>'' @ fence) =
     \<lparr>success = False, code = None, error = Some ''code block is empty'',
      rawResponse = Some (fence @ ''js\<newline>  \<newline>'' @ fence)\<rparr>"
    by simp
  from 1 2 3 4 show ?thesis by blast
qed

subsection \<open>The code normalizer\<close>

lemma has_pair_tl: "has_pair P s \<Longrightarrow> has_pair P (a # s)"
  by (cases s) auto

lemma has_triple_tl: "has_triple q s \<Longrightarrow> has_triple q (a # s)"
  by (cases "(q, s)" rule: has_triple.cases) auto

lemma has_pair_hd:
  "has_pair P (a # s) \<Longrightarrow> (s \<noteq> [] \<and> P a (hd s)) \<or> has_pair P s"
  by (cases s) auto

lemma replace_escaped_hd:
  "replace_escaped q (b # cs) \<noteq> [] \<and>
   (hd (replace_escaped q (b # cs)) = b \<or>
    (b = BSL \<and> cs \<noteq> [] \<and> hd cs = q \<and> hd (replace_escaped q (b # cs)) = q))"
  by (cases cs) auto

lemma replace_nrt_hd:
  "replace_nrt (b # cs) \<noteq> [] \<and>
   (hd (replace_nrt (b # cs)) = b \<or>
    (b = BSL \<and> cs \<noteq> [] \<and> hd cs \<in> set ''nrt'' \<and> hd (replace_nrt (b # cs)) = escape_char (hd cs)))"
  by (cases cs) auto

lemma replace_escaped_id:
  "\<not> has_pair (\<lambda>a b. a = BSL \<and> b = q) s \<Longrightarrow> replace_escaped q s = s"
  by (induction q s rule: replace_escaped.induct) auto

lemma replace_nrt_id:
  "\<not> has_pair (\<lambda>a b. a = BSL \<and> b \<in> set ''nrt'') s \<Longrightarrow> replace_nrt s = s"
  by (induction s rule: replace_nrt.induct) auto

lemma replace_escaped_no_pair:
  "q \<noteq> BSL \<Longrightarrow> \<not> has_triple q s \<Longrightarrow> \<not> has_pair (\<lambda>a b. a = BSL \<and> b = q) (replace_escaped q s)"
proof (induction q s rule: replace_escaped.induct)
  case (1 q a b cs)
  show ?case
  proof (cases "a = BSL \<and> b = q")
    case True
    from "1.prems" have "\<not> has_triple q cs"
      using has_triple_tl by blast
    with "1.IH"(1) True "1.prems" have "\<not> has_pair (\<lambda>a b. a = BSL \<and> b = q) (replace_escaped q cs)"
      by simp
    with True "1.prems" show ?thesis
      by (auto dest!: has_pair_hd)
  next
    case False
    from "1.prems" have nt: "\<not> has_triple q (b # cs)"
      using has_triple_tl by blast
    with "1.IH"(2) False "1.prems"
    have ih: "\<not> has_pair (\<lambda>a b. a = BSL \<and> b = q) (replace_escaped q (b # cs))"
      by simp
    have "\<not> (a = BSL \<and> hd (replace_escaped q (b # cs)) = q)"
    proof
      assume h: "a = BSL \<and> hd (replace_escaped q (b # cs)) = q"
      from replace_escaped_hd[of q b cs] h False
      have "b = BSL \<and> cs \<noteq> [] \<and> hd cs = q" by auto
      with h "1.prems"(2) show False by (cases cs) auto
    qed
    with ih False show ?thesis
      by (auto dest!: has_pair_hd)
  qed
qed auto

lemma has_triple_Cons:
  "has_triple q (a # s) \<longleftrightarrow> (a = BSL \<and> (\<exists>t. s = BSL # q # t)) \<or> has_triple q s"
  by (cases "(q, a # s)" rule: has_triple.cases) auto

lemma replace_escaped_keeps_triple_free:
  "q \<noteq> BSL \<Longrightarrow> q' \<noteq> q \<Longrightarrow> \<not> has_triple q' s \<Longrightarrow> \<not> has_triple q' (replace_escaped q s)"
proof (induction q s rule: replace_escaped.induct)
  case (1 q a b cs)
  show ?case
  proof (cases "a = BSL \<and> b = q")
    case True
    from "1.prems" have "\<not> has_triple q' cs"
      using has_triple_tl by blast
    with "1.IH"(1) True "1.prems" have "\<not> has_triple q' (replace_escaped q cs)"
      by simp
    with True "1.prems"(1) show ?thesis
      by (simp add: has_triple_Cons)
  next
    case False
    from "1.prems" have "\<not> has_triple q' (b # cs)"
      using has_triple_tl by blast
    with "1.IH"(2) False "1.prems" have ih: "\<not> has_triple q' (replace_escaped q (b # cs))"
      by simp
    have "\<not> (a = BSL \<and> (\<exists>t. replace_escaped q (b # cs) = BSL # q' # t))"
    proof
      assume h: "a = BSL \<and> (\<exists>t. replace_escaped q (b # cs) = BSL # q' # t)"
      then obtain t where t: "replace_escaped q (b # cs) = BSL # q' # t" by blast
      show False
      proof (cases cs)
        case Nil
        with t show False by simp
      next
        case (Cons c ds)
        show False
        proof (cases "b = BSL \<and> c = q")
          case True
          with t Cons "1.prems"(1) show False by simp
        next
          case nomatch: False
          with t Cons have b: "b = BSL" and r: "replace_escaped q (c # ds) = q' # t"
            by auto
          from replace_escaped_hd[of q c ds] r "1.prems"(2) have "c = q'"
            by auto
          with h b Cons "1.prems"(3) show False by simp
        qed
      qed
    qed
    moreover from False have "replace_escaped q (a # b # cs) = a # replace_escaped q (b # cs)"
      by auto
    ultimately show ?thesis using ih
      by (simp only: has_triple_Cons) blast
  qed
qed auto

lemma replace_escaped_keeps_pair_free:
  "\<forall>a. \<not> P a q \<Longrightarrow> \<not> has_pair P s \<Longrightarrow> \<not> has_pair P (replace_escaped q s)"
proof (induction q s rule: replace_escaped.induct)
  case (1 q a b cs)
  show ?case
  proof (cases "a = BSL \<and> b = q")
    case True
    from "1.prems" have "\<not> has_pair P cs"
      using has_pair_tl by blast
    with "1.IH"(1) True "1.prems" have ih: "\<not> has_pair P (replace_escaped q cs)"
      by simp
    have "\<not> has_pair P (q # replace_escaped q cs)"
    proof (cases cs)
      case Nil
      then show ?thesis by simp
    next
      case (Cons c ds)
      from replace_escaped_hd[of q c ds] "1.prems" True Cons
      have "\<not> P q (hd (replace_escaped q cs))" by auto
      with ih show ?thesis by (auto dest!: has_pair_hd)
    qed
    with True show ?thesis by simp
  next
    case False
    from "1.prems" have "\<not> has_pair P (b # cs)"
      using has_pair_tl by blast
    with "1.IH"(2) False "1.prems" have ih: "\<not> has_pair P (replace_escaped q (b # cs))"
      by simp
    from replace_escaped_hd[of q b cs] "1.prems"
    have "\<not> P a (hd (replace_escaped q (b # cs)))" by auto
    with ih False show ?thesis by (auto dest!: has_pair_hd)
  qed
qed auto

lemma escape_char_cases: "d \<in> set ''nrt'' \<Longrightarrow> escape_char d \<in> {LF, TAB, CR}"
  by (auto simp: escape_char_def)

lemma replace_nrt_keeps_pair_free:
  "\<forall>a e. e \<in> {LF, TAB, CR} \<longrightarrow> \<not> P a e \<and> \<not> P e a \<Longrightarrow> \<not> has_pair P s
     \<Longrightarrow> \<not> has_pair P (replace_nrt s)"
proof (induction s rule: replace_nrt.induct)
  case (1 a b cs)
  show ?case
  proof (cases "a = BSL \<and> b \<in> set ''nrt''")
    case True
    from "1.prems"(2) have "\<not> has_pair P cs"
      using has_pair_tl by blast
    with "1.IH"(1) True "1.prems"(1) have ih: "\<not> has_pair P (replace_nrt cs)"
      by blast
    from True have "escape_char b \<in> {LF, TAB, CR}" using escape_char_cases by blast
    with "1.prems"(1) have "\<not> P (escape_char b) (hd (replace_nrt cs))" by blast
    with ih have "\<not> has_pair P (escape_char b # replace_nrt cs)"
      by (auto dest!: has_pair_hd)
    with True show ?thesis by simp
  next
    case False
    from "1.prems"(2) have "\<not> has_pair P (b # cs)"
      using has_pair_tl by blast
    with "1.IH"(2) False "1.prems"(1) have ih: "\<not> has_pair P (replace_nrt (b # cs))"
      by blast
    have "\<not> P a (hd (replace_nrt (b # cs)))"
    proof -
      from replace_nrt_hd[of b cs]
      consider "hd (replace_nrt (b # cs)) = b"
        | "hd cs \<in> set ''nrt''" "hd (replace_nrt (b # cs)) = escape_char (hd cs)"
        by blast
      then show ?thesis
      proof cases
        case 1
        with "1.prems"(2) show ?thesis by simp
      next
        case 2
        from 2(1) have "escape_char (hd cs) \<in> {LF, TAB, CR}" by (rule escape_char_cases)
        with "1.prems"(1) have "\<not> P a (escape_char (hd cs))" by blast
        with 2(2) show ?thesis by simp
      qed
    qed
    with ih False show ?thesis by (auto dest!: has_pair_hd)
  qed
qed auto

lemma replace_nrt_no_pair:
  "\<not> has_pair (\<lambda>a b. a = BSL \<and> b \<in> set ''nrt'') (replace_nrt s)"
proof (induction s rule: replace_nrt.induct)
  case (1 a b cs)
  show ?case
  proof (cases "a = BSL \<and> b \<in> set ''nrt''")
    case True
    with "1.IH"(1) have ih: "\<not> has_pair (\<lambda>a b. a = BSL \<and> b \<in> set ''nrt'') (replace_nrt cs)"
      by simp
    from True have "escape_char b \<noteq> BSL" by (auto simp: escape_char_def)
    with ih True show ?thesis by (auto dest!: has_pair_hd)
  next
    case False
    with "1.IH"(2) have ih: "\<not> has_pair (\<lambda>a b. a = BSL \<and> b \<in> set ''nrt'') (replace_nrt (b # cs))"
      by simp
    have "\<not> (a = BSL \<and> hd (replace_nrt (b # cs)) \<in> set ''nrt'')"
    proof -
      from replace_nrt_hd[of b cs]
      consider "hd (replace_nrt (b # cs)) = b"
        | "hd cs \<in> set ''nrt''" "hd (replace_nrt (b # cs)) = escape_char (hd cs)"
        by blast
      then show ?thesis
      proof cases
        case 1
        with False show ?thesis by simp
      next
        case 2
        with escape_char_cases[of "hd cs"] show ?thesis by auto
      qed
    qed
    with ih False show ?thesis by (auto dest!: has_pair_hd)
  qed
qed auto


lemma cleanCode_stable:
  assumes "\<not> escaped_backslash_before_quote x"
  shows "cleanCode (cleanCode x) = cleanCode x"
proof -
  let ?x1 = "replace_escaped DQ x"
  let ?x2 = "replace_escaped SQ ?x1"
  let ?y = "replace_nrt ?x2"
  from assms have t: "\<not> has_triple DQ x" "\<not> has_triple SQ x"
    by (simp_all add: escaped_backslash_before_quote_def)
  have x1: "\<not> has_pair (\<lambda>a b. a = BSL \<and> b = DQ) ?x1"
    using replace_escaped_no_pair[of DQ x] t(1) by simp
  have x1': "\<not> has_triple SQ ?x1"
    using replace_escaped_keeps_triple_free[of DQ SQ x] t(2) by simp
  have x2: "\<not> has_pair (\<lambda>a b. a = BSL \<and> b = SQ) ?x2"
    using replace_escaped_no_pair[of SQ ?x1] x1' by simp
  have x2': "\<not> has_pair (\<lambda>a b. a = BSL \<and> b = DQ) ?x2"
    using replace_escaped_keeps_pair_free[of "\<lambda>a b. a = BSL \<and> b = DQ" SQ ?x1] x1 by simp
  have y1: "\<not> has_pair (\<lambda>a b. a = BSL \<and> b = DQ) ?y"
    using replace_nrt_keeps_pair_free[of "\<lambda>a b. a = BSL \<and> b = DQ" ?x2] x2' by simp
  have y2: "\<not> has_pair (\<lambda>a b. a = BSL \<and> b = SQ) ?y"
    using replace_nrt_keeps_pair_free[of "\<lambda>a b. a = BSL \<and> b = SQ" ?x2] x2 by simp
  have y3: "\<not> has_pair (\<lambda>a b. a = BSL \<and> b \<in> set ''nrt'') ?y"
    by (rule replace_nrt_no_pair)
  have "cleanCode ?y = ?y"
    unfolding cleanCode_def
    using y1 y2 y3 by (simp add: replace_escaped_id replace_nrt_id)
  then show ?thesis by (simp add: cleanCode_def)
qed


lemma has_pair_Cons:
  "has_pair P (a # s) \<longleftrightarrow> (case s of [] \<Rightarrow> False | b # cs \<Rightarrow> P a b \<or> has_pair P s)"
  by (cases s) auto

lemma has_triple_skip: "a \<noteq> BSL \<Longrightarrow> has_triple q (a # s) = has_triple q s"
  by (simp add: has_triple_Cons)

lemma has_pair_skip: "\<not> P a (hd s) \<Longrightarrow> has_pair P (a # s) = has_pair P s"
  by (cases s) auto

lemma replace_escaped_Cons_other:
  "b \<noteq> BSL \<Longrightarrow> replace_escaped q (b # cs) = b # replace_escaped q cs"
  by (cases cs) auto

lemma replace_nrt_Cons_other:
  "b \<noteq> BSL \<Longrightarrow> replace_nrt (b # cs) = b # replace_nrt cs"
  by (cases cs) auto

lemma replace_escaped_makes_pair:
  "q \<noteq> BSL \<Longrightarrow> has_triple q s \<Longrightarrow> has_pair (\<lambda>a b. a = BSL \<and> b = q) (replace_escaped q s)"
proof (induction q s rule: replace_escaped.induct)
  case (1 q a b cs)
  show ?case
  proof (cases "a = BSL \<and> b = q")
    case True
    with "1.prems" have "has_triple q cs"
      by (simp add: has_triple_Cons)
    with "1.IH"(1) True "1.prems"(1)
    have "has_pair (\<lambda>a b. a = BSL \<and> b = q) (replace_escaped q cs)" by simp
    with True show ?thesis by (simp add: has_pair_tl)
  next
    case False
    then have r: "replace_escaped q (a # b # cs) = a # replace_escaped q (b # cs)" by auto
    from "1.prems"(2)
    consider "a = BSL" "b = BSL" "\<exists>t. cs = q # t" | "has_triple q (b # cs)"
      by (auto simp: has_triple_Cons)
    then show ?thesis
    proof cases
      case 1
      then obtain t where "cs = q # t" by blast
      with 1 "1.prems"(1) show ?thesis unfolding r by simp
    next
      case 2
      with "1.IH"(2) False "1.prems"(1)
      have "has_pair (\<lambda>a b. a = BSL \<and> b = q) (replace_escaped q (b # cs))" by simp
      then show ?thesis unfolding r by (rule has_pair_tl)
    qed
  qed
qed auto

lemma replace_escaped_keeps_pair:
  "q \<noteq> BSL \<Longrightarrow> q' \<noteq> BSL \<Longrightarrow> q' \<noteq> q \<Longrightarrow> has_pair (\<lambda>a b. a = BSL \<and> b = q') s
     \<Longrightarrow> has_pair (\<lambda>a b. a = BSL \<and> b = q') (replace_escaped q s)"
proof (induction q s rule: replace_escaped.induct)
  case (1 q a b cs)
  show ?case
  proof (cases "a = BSL \<and> b = q")
    case True
    with "1.prems" have "has_pair (\<lambda>a b. a = BSL \<and> b = q') cs"
      by (auto simp: has_pair_Cons split: list.splits)
    with "1.IH"(1) True "1.prems"
    have "has_pair (\<lambda>a b. a = BSL \<and> b = q') (replace_escaped q cs)" by simp
    with True show ?thesis by (simp add: has_pair_tl)
  next
    case False
    then have r: "replace_escaped q (a # b # cs) = a # replace_escaped q (b # cs)" by auto
    from "1.prems"(4)
    consider "a = BSL" "b = q'" | "has_pair (\<lambda>a b. a = BSL \<and> b = q') (b # cs)"
      by auto
    then show ?thesis
    proof cases
      case 1
      with "1.prems"(2) show ?thesis unfolding r by (simp add: replace_escaped_Cons_other)
    next
      case 2
      with "1.IH"(2) False "1.prems"
      have "has_pair (\<lambda>a b. a = BSL \<and> b = q') (replace_escaped q (b # cs))" by simp
      then show ?thesis unfolding r by (rule has_pair_tl)
    qed
  qed
qed auto

lemma replace_nrt_keeps_pair:
  "q \<noteq> BSL \<Longrightarrow> q \<notin> set ''nrt'' \<Longrightarrow> has_pair (\<lambda>a b. a = BSL \<and> b = q) s
     \<Longrightarrow> has_pair (\<lambda>a b. a = BSL \<and> b = q) (replace_nrt s)"
proof (induction s rule: replace_nrt.induct)
  case (1 a b cs)
  show ?case
  proof (cases "a = BSL \<and> b \<in> set ''nrt''")
    case True
    then have "b \<noteq> BSL" by auto
    moreover from True "1.prems"(2) have "b \<noteq> q" by blast
    ultimately have "has_pair (\<lambda>a b. a = BSL \<and> b = q) cs"
      using "1.prems"(3) by (cases cs) auto
    with "1.IH"(1) [OF True "1.prems"(1,2)]
    have "has_pair (\<lambda>a b. a = BSL \<and> b = q) (replace_nrt cs)" by blast
    then have "has_pair (\<lambda>a b. a = BSL \<and> b = q) (escape_char b # replace_nrt cs)"
      by (rule has_pair_tl)
    with True show ?thesis by simp
  next
    case False
    then have r: "replace_nrt (a # b # cs) = a # replace_nrt (b # cs)" by auto
    from "1.prems"(3)
    consider "a = BSL" "b = q" | "has_pair (\<lambda>a b. a = BSL \<and> b = q) (b # cs)"
      by auto
    then show ?thesis
    proof cases
      case 1
      with "1.prems"(1) show ?thesis unfolding r by (simp add: replace_nrt_Cons_other)
    next
      case 2
      with "1.IH"(2) [OF False "1.prems"(1,2)]
      have "has_pair (\<lambda>a b. a = BSL \<and> b = q) (replace_nrt (b # cs))" by blast
      then show ?thesis unfolding r by (rule has_pair_tl)
    qed
  qed
qed auto

lemma replace_escaped_keeps_triple:
  "q \<noteq> BSL \<Longrightarrow> q' \<noteq> BSL \<Longrightarrow> q' \<noteq> q \<Longrightarrow> has_triple q' s \<Longrightarrow> has_triple q' (replace_escaped q s)"
proof (induction q s rule: replace_escaped.induct)
  case (1 q a b cs)
  show ?case
  proof (cases "a = BSL \<and> b = q")
    case True
    with "1.prems" have "has_triple q' cs"
      by (auto simp: has_triple_Cons)
    with "1.IH"(1) True "1.prems"
    have "has_triple q' (replace_escaped q cs)" by simp
    with True show ?thesis by (simp add: has_triple_tl)
  next
    case False
    then have r: "replace_escaped q (a # b # cs) = a # replace_escaped q (b # cs)" by auto
    from "1.prems"(4)
    consider "a = BSL" "b = BSL" "\<exists>t. cs = q' # t" | "has_triple q' (b # cs)"
      by (auto simp: has_triple_Cons)
    then show ?thesis
    proof cases
      case 1
      then obtain t where "cs = q' # t" by blast
      with 1 "1.prems"(2,3) show ?thesis unfolding r
        by (simp add: replace_escaped_Cons_other has_triple_Cons)
    next
      case 2
      with "1.IH"(2) False "1.prems"
      have "has_triple q' (replace_escaped q (b # cs))" by simp
      then show ?thesis unfolding r by (rule has_triple_tl)
    qed
  qed
qed auto

lemma replace_escaped_length: "length (replace_escaped q s) \<le> length s"
  by (induction q s rule: replace_escaped.induct) auto

lemma replace_nrt_length: "length (replace_nrt s) \<le> length s"
  by (induction s rule: replace_nrt.induct) auto

lemma replace_escaped_shorter:
  "has_pair (\<lambda>a b. a = BSL \<and> b = q) s \<Longrightarrow> length (replace_escaped q s) < length s"
proof (induction q s rule: replace_escaped.induct)
  case (1 q a b cs)
  show ?case
  proof (cases "a = BSL \<and> b = q")
    case True
    have "length (replace_escaped q cs) \<le> length cs" by (rule replace_escaped_length)
    with True show ?thesis by simp
  next
    case False
    with "1.prems" have "has_pair (\<lambda>a b. a = BSL \<and> b = q) (b # cs)" by auto
    with "1.IH"(2) False have "length (replace_escaped q (b # cs)) < length (b # cs)" by simp
    with False show ?thesis by auto
  qed
qed auto

lemma cleanCode_shorter:
  assumes "has_pair (\<lambda>a b. a = BSL \<and> b = DQ) y \<or> has_pair (\<lambda>a b. a = BSL \<and> b = SQ) y"
  shows "length (cleanCode y) < length y"
proof -
  let ?y1 = "replace_escaped DQ y"
  let ?y2 = "replace_escaped SQ ?y1"
  have l1: "length ?y1 \<le> length y" and l2: "length ?y2 \<le> length ?y1"
    and l3: "length (replace_nrt ?y2) \<le> length ?y2"
    by (rule replace_escaped_length replace_nrt_length)+
  from assms show ?thesis
  proof
    assume "has_pair (\<lambda>a b. a = BSL \<and> b = DQ) y"
    then have "length ?y1 < length y" by (rule replace_escaped_shorter)
    with l2 l3 show ?thesis by (simp add: cleanCode_def)
  next
    assume "has_pair (\<lambda>a b. a = BSL \<and> b = SQ) y"
    then have "has_pair (\<lambda>a b. a = BSL \<and> b = SQ) ?y1"
      using replace_escaped_keeps_pair [of DQ SQ y] by simp
    then have "length ?y2 < length ?y1" by (rule replace_escaped_shorter)
    with l1 l3 show ?thesis by (simp add: cleanCode_def)
  qed
qed

lemma cleanCode_leaves_pair:
  assumes "escaped_backslash_before_quote x"
  shows "has_pair (\<lambda>a b. a = BSL \<and> b = DQ) (cleanCode x)
       \<or> has_pair (\<lambda>a b. a = BSL \<and> b = SQ) (cleanCode x)"
proof -
  let ?x1 = "replace_escaped DQ x"
  let ?x2 = "replace_escaped SQ ?x1"
  from assms have "has_triple DQ x \<or> has_triple SQ x"
    by (simp add: escaped_backslash_before_quote_def)
  then show ?thesis
  proof
    assume "has_triple DQ x"
    then have "has_pair (\<lambda>a b. a = BSL \<and> b = DQ) ?x1"
      using replace_escaped_makes_pair [of DQ x] by simp
    then have "has_pair (\<lambda>a b. a = BSL \<and> b = DQ) ?x2"
      using replace_escaped_keeps_pair [of SQ DQ ?x1] by simp
    then have "has_pair (\<lambda>a b. a = BSL \<and> b = DQ) (replace_nrt ?x2)"
      using replace_nrt_keeps_pair [of DQ ?x2] by simp
    then show ?thesis by (simp add: cleanCode_def)
  next
    assume "has_triple SQ x"
    then have "has_triple SQ ?x1"
      using replace_escaped_keeps_triple [of DQ SQ x] by simp
    then have "has_pair (\<lambda>a b. a = BSL \<and> b = SQ) ?x2"
      using replace_escaped_makes_pair [of SQ ?x1] by simp
    then have "has_pair (\<lambda>a b. a = BSL \<and> b = SQ) (replace_nrt ?x2)"
      using replace_nrt_keeps_pair [of SQ ?x2] by simp
    then show ?thesis by (simp add: cleanCode_def)
  qed
qed

lemma cleanCode_changes_again:
  assumes "escaped_backslash_before_quote x"
  shows "cleanCode (cleanCode x) \<noteq> cleanCode x"
proof -
  from assms have "length (cleanCode (cleanCode x)) < length (cleanCode x)"
    by (intro cleanCode_shorter cleanCode_leaves_pair)
  then show ?thesis by auto
qed


text \<open>
  Claim C4, as stated, fails: \<open>cleanCode\<close> is not idempotent. Two backslashes before a quote
  leave an escaped quote behind, which a second pass removes.
\<close>

theorem cleanCode_not_idempotent:
  "cleanCode [BSL, BSL, DQ] = [BSL, DQ]
   \<and> cleanCode (cleanCode [BSL, BSL, DQ]) = [DQ]
   \<and> cleanCode (cleanCode [BSL, BSL, DQ]) \<noteq> cleanCode [BSL, BSL, DQ]"
  by (simp add: cleanCode_def)

text \<open>
  Claim C4, amended. \<open>cleanCode (cleanCode x) = cleanCode x\<close> holds for every text in which
  no quote character is preceded by two backslashes, and for no other text.
\<close>

theorem cleanCode_idempotent:
  "(\<not> escaped_backslash_before_quote x \<longrightarrow> cleanCode (cleanCode x) = cleanCode x)
   \<and> (escaped_backslash_before_quote x \<longrightarrow> cleanCode (cleanCode x) \<noteq> cleanCode x)"
  using cleanCode_stable [of x] cleanCode_changes_again [of x] by blast

theorem cleanCode_idempotent_witness:
  "\<not> escaped_backslash_before_quote (''s('' @ [BSL, DQ] @ ''bd'' @ [BSL, DQ] @ '')'' @ [BSL, BSL, CHR ''n''])
   \<and> cleanCode (''s('' @ [BSL, DQ] @ ''bd'' @ [BSL, DQ] @ '')'' @ [BSL, BSL, CHR ''n'']) = ''s(\"bd\")'' @ [BSL, LF]
   \<and> cleanCode (cleanCode (''s('' @ [BSL, DQ] @ ''bd'' @ [BSL, DQ] @ '')'' @ [BSL, BSL, CHR ''n'']))
       = cleanCode (''s('' @ [BSL, DQ] @ ''bd'' @ [BSL, DQ] @ '')'' @ [BSL, BSL, CHR ''n''])
   \<and> escaped_backslash_before_quote (''s('' @ [BSL, BSL, SQ] @ ''bd'' @ [SQ] @ '')'')
   \<and> cleanCode (cleanCode (''s('' @ [BSL, BSL, SQ] @ ''bd'' @ [SQ] @ '')''))
       \<noteq> cleanCode (''s('' @ [BSL, BSL, SQ] @ ''bd'' @ [SQ] @ '')'')"
proof -
  have h: "\<not> escaped_backslash_before_quote (''s('' @ [BSL, DQ] @ ''bd'' @ [BSL, DQ] @ '')'' @ [BSL, BSL, CHR ''n''])"
    by (simp add: escaped_backslash_before_quote_def)
  have e: "cleanCode (''s('' @ [BSL, DQ] @ ''bd'' @ [BSL, DQ] @ '')'' @ [BSL, BSL, CHR ''n'']) = ''s(\"bd\")'' @ [BSL, LF]"
    by (simp add: cleanCode_def escape_char_def)
  have g: "escaped_backslash_before_quote (''s('' @ [BSL, BSL, SQ] @ ''bd'' @ [SQ] @ '')'')"
    by (simp add: escaped_backslash_before_quote_def)
  from h cleanCode_idempotent [of "''s('' @ [BSL, DQ] @ ''bd'' @ [BSL, DQ] @ '')'' @ [BSL, BSL, CHR ''n'']"]
  have 1: "cleanCode (cleanCode (''s('' @ [BSL, DQ] @ ''bd'' @ [BSL, DQ] @ '')'' @ [BSL, BSL, CHR ''n'']))
       = cleanCode (''s('' @ [BSL, DQ] @ ''bd'' @ [BSL, DQ] @ '')'' @ [BSL, BSL, CHR ''n''])"
    by blast
  from g cleanCode_idempotent [of "''s('' @ [BSL, BSL, SQ] @ ''bd'' @ [SQ] @ '')''"]
  have 2: "cleanCode (cleanCode (''s('' @ [BSL, BSL, SQ] @ ''bd'' @ [SQ] @ '')''))
       \<noteq> cleanCode (''s('' @ [BSL, BSL, SQ] @ ''bd'' @ [SQ] @ '')'')"
    by blast
  from h e g 1 2 show ?thesis by blast
qed

subsection \<open>The comparison after an edit\<close>

lemma normalize_norm_lines: "normalize_code s = join_nl (norm_lines s)"
  by (simp add: normalize_code_def norm_lines_def)

lemma split_nl_nonempty: "split_nl s \<noteq> []"
  by (induction s) (auto split: list.splits)

lemma split_nl_Cons_other:
  "c \<noteq> LF \<Longrightarrow> split_nl (c # cs) = (c # hd (split_nl cs)) # tl (split_nl cs)"
  using split_nl_nonempty[of cs] by (cases "split_nl cs") auto

lemma split_nl_append_LF: "split_nl (a @ LF # b) = split_nl a @ split_nl b"
proof (induction a)
  case Nil
  show ?case by simp
next
  case (Cons c a)
  show ?case
  proof (cases "c = LF")
    case True
    with Cons show ?thesis by simp
  next
    case False
    have "split_nl a \<noteq> []" by (rule split_nl_nonempty)
    with False Cons show ?thesis
      by (cases "split_nl a") auto
  qed
qed

lemma split_nl_snoc:
  "c \<noteq> LF \<Longrightarrow> split_nl (q @ [c]) = butlast (split_nl q) @ [last (split_nl q) @ [c]]"
proof (induction q)
  case Nil
  then show ?case by simp
next
  case (Cons d q)
  have ne: "split_nl q \<noteq> []" "split_nl (q @ [c]) \<noteq> []" by (rule split_nl_nonempty)+
  show ?case
  proof (cases "d = LF")
    case True
    with Cons ne show ?thesis by simp
  next
    case False
    with Cons ne show ?thesis
      by (cases "split_nl q"; cases "tl (split_nl q)") (auto simp: split_nl_Cons_other)
  qed
qed

lemma trim_Nil: "trim [] = []"
  by (simp add: trim_def)

lemma trim_space_Cons: "is_space c \<Longrightarrow> trim (c # l) = trim l"
  by (simp add: trim_def)

lemma trim_space_snoc:
  assumes "is_space c"
  shows "trim (l @ [c]) = trim l"
proof (cases "\<forall>x\<in>set l. is_space x")
  case True
  then have a: "dropWhile is_space l = []" by simp
  from True assms have b: "dropWhile is_space (l @ [c]) = []" by simp
  show ?thesis unfolding trim_def a b by (rule refl)
next
  case False
  then obtain x where "x \<in> set l" "\<not> is_space x" by blast
  then have d: "dropWhile is_space (l @ [c]) = dropWhile is_space l @ [c]"
    by (rule dropWhile_append1)
  show ?thesis unfolding trim_def d using assms by simp
qed

lemma norm_lines_Nil: "norm_lines [] = []"
  by (simp add: norm_lines_def trim_def)

lemma norm_lines_append_LF: "norm_lines (a @ LF # b) = norm_lines a @ norm_lines b"
  by (simp add: norm_lines_def split_nl_append_LF)

lemma norm_lines_space_prefix:
  "\<forall>c\<in>set w. is_space c \<Longrightarrow> norm_lines (w @ s) = norm_lines s"
proof (induction w)
  case Nil
  show ?case by simp
next
  case (Cons c w)
  then have ih: "norm_lines (w @ s) = norm_lines s" and sp: "is_space c" by simp_all
  show ?case
  proof (cases "c = LF")
    case True
    with ih show ?thesis by (simp add: norm_lines_def trim_Nil)
  next
    case False
    have "split_nl (w @ s) \<noteq> []" by (rule split_nl_nonempty)
    then obtain l ls where l: "split_nl (w @ s) = l # ls" by (cases "split_nl (w @ s)") auto
    with False sp ih show ?thesis
      by (simp add: norm_lines_def trim_space_Cons)
  qed
qed

lemma norm_lines_space_suffix:
  "\<forall>c\<in>set w. is_space c \<Longrightarrow> norm_lines (p @ w) = norm_lines p"
proof (induction w rule: rev_induct)
  case Nil
  show ?case by simp
next
  case (snoc c w)
  then have ih: "norm_lines (p @ w) = norm_lines p" and sp: "is_space c" by simp_all
  show ?case
  proof (cases "c = LF")
    case True
    have "norm_lines ((p @ w) @ LF # []) = norm_lines (p @ w) @ norm_lines []"
      by (rule norm_lines_append_LF)
    with True ih show ?thesis by (simp add: norm_lines_Nil)
  next
    case False
    have ne: "split_nl (p @ w) \<noteq> []" by (rule split_nl_nonempty)
    have e: "split_nl ((p @ w) @ [c]) = butlast (split_nl (p @ w)) @ [last (split_nl (p @ w)) @ [c]]"
      using False by (rule split_nl_snoc)
    have "map trim (split_nl ((p @ w) @ [c])) = map trim (butlast (split_nl (p @ w)) @ [last (split_nl (p @ w))])"
      unfolding e using sp by (simp add: trim_space_snoc)
    also have "\<dots> = map trim (split_nl (p @ w))"
      using ne by simp
    finally have "norm_lines ((p @ w) @ [c]) = norm_lines (p @ w)"
      unfolding norm_lines_def by (rule arg_cong)
    with ih show ?thesis by simp
  qed
qed

lemma normalize_space_at_boundary:
  assumes ws: "\<forall>c\<in>set w. is_space c" and lb: "line_boundary p s"
  shows "normalize_code (p @ w @ s) = normalize_code (p @ s)"
proof -
  have "norm_lines (p @ w @ s) = norm_lines (p @ s)"
  proof (cases "p = [] \<or> last p = LF")
    case True
    then show ?thesis
    proof
      assume "p = []"
      with ws show ?thesis by (simp add: norm_lines_space_prefix)
    next
      assume l: "last p = LF"
      show ?thesis
      proof (cases "p = []")
        case True
        with ws show ?thesis by (simp add: norm_lines_space_prefix)
      next
        case False
        with l obtain p' where p: "p = p' @ [LF]" by (metis append_butlast_last_id)
        show ?thesis unfolding p using ws
          by (simp add: norm_lines_append_LF norm_lines_space_prefix)
      qed
    qed
  next
    case False
    with lb have "s = [] \<or> hd s = LF" by (simp add: line_boundary_def)
    then show ?thesis
    proof
      assume "s = []"
      with ws show ?thesis by (simp add: norm_lines_space_suffix)
    next
      assume h: "hd s = LF"
      show ?thesis
      proof (cases "s = []")
        case True
        with ws show ?thesis by (simp add: norm_lines_space_suffix)
      next
        case False
        with h obtain s' where s: "s = LF # s'" by (cases s) auto
        have "norm_lines ((p @ w) @ LF # s') = norm_lines (p @ w) @ norm_lines s'"
          by (rule norm_lines_append_LF)
        then show ?thesis unfolding s using ws
          by (simp add: norm_lines_append_LF norm_lines_space_suffix)
      qed
    qed
  qed
  then show ?thesis by (simp add: normalize_norm_lines)
qed

text \<open>
  Claim C10. \<open>isCodeUnchanged\<close> is reflexive and symmetric, and white space inserted at the
  start or at the end of a line of either argument does not change its result. The inserted
  white space may contain line breaks, which covers blank lines; read from right to left,
  the equations cover removal.
\<close>

theorem isCodeUnchanged_insensitive:
  assumes "\<forall>c\<in>set w. is_space c" and "line_boundary p s"
  shows "isCodeUnchanged x x
       \<and> isCodeUnchanged x y = isCodeUnchanged y x
       \<and> isCodeUnchanged (p @ w @ s) y = isCodeUnchanged (p @ s) y
       \<and> isCodeUnchanged y (p @ w @ s) = isCodeUnchanged y (p @ s)"
  using normalize_space_at_boundary[OF assms]
  by (auto simp: isCodeUnchanged_def)

theorem isCodeUnchanged_insensitive_witness:
  "list_all is_space ''  \<newline> ''
   \<and> line_boundary ''setcpm(60)\<newline>'' ''$: s(\"bd\")''
   \<and> isCodeUnchanged (''setcpm(60)\<newline>'' @ ''  \<newline> '' @ ''$: s(\"bd\")'') ''setcpm(60)\<newline>$: s(\"bd\")''
   \<and> isCodeUnchanged ''setcpm(60)\<newline>$: s(\"bd\")'' (''setcpm(60)\<newline>'' @ ''  \<newline> '' @ ''$: s(\"bd\")'')"
proof -
  have ws: "\<forall>c\<in>set ''  \<newline> ''. is_space c"
    by (simp add: is_space_def)
  have lb: "line_boundary ''setcpm(60)\<newline>'' ''$: s(\"bd\")''"
    by (simp add: line_boundary_def)
  from isCodeUnchanged_insensitive [OF ws lb, of "''setcpm(60)\<newline>$: s(\"bd\")''" "''setcpm(60)\<newline>$: s(\"bd\")''"]
  have "isCodeUnchanged (''setcpm(60)\<newline>'' @ ''  \<newline> '' @ ''$: s(\"bd\")'') ''setcpm(60)\<newline>$: s(\"bd\")''"
    and "isCodeUnchanged ''setcpm(60)\<newline>$: s(\"bd\")'' (''setcpm(60)\<newline>'' @ ''  \<newline> '' @ ''$: s(\"bd\")'')"
    by simp_all
  moreover have "list_all is_space ''  \<newline> ''"
    by (simp add: is_space_def)
  ultimately show ?thesis using lb by blast
qed

section \<open>Properties of the content validator\<close>

subsection \<open>All rules run and their issues are aggregated in order\<close>

lemma push_when_append: "push_when c m xs = xs @ (if c then [m] else [])"
  by (simp add: push_when_def)

lemma push_text_append:
  "push_text x xs = xs @ (case x of None \<Rightarrow> [] | Some m \<Rightarrow> if m \<noteq> [] then [m] else [])"
  by (simp add: push_text_def split: option.splits)

lemma validateStrudelCode_issues:
  "issues (validateStrudelCode render src config) =
     rule_voice_count render (merge_config DEFAULT_CONFIG config) src
     @ rule_line_budget render (merge_config DEFAULT_CONFIG config) src
     @ rule_tempo render (merge_config DEFAULT_CONFIG config) src
     @ rule_forbidden_samples render (merge_config DEFAULT_CONFIG config) src
     @ rule_randomness render (merge_config DEFAULT_CONFIG config) src
     @ rule_extreme_effects render (merge_config DEFAULT_CONFIG config) src
     @ rule_syntax_balance render (merge_config DEFAULT_CONFIG config) src
     @ rule_invalid_methods render (merge_config DEFAULT_CONFIG config) src
     @ rule_effect_density render (merge_config DEFAULT_CONFIG config) src
     @ rule_dangerous_patterns render (merge_config DEFAULT_CONFIG config) src"
  unfolding validateStrudelCode_def Let_def push_when_append push_text_append
    rule_voice_count_def rule_line_budget_def rule_tempo_def rule_forbidden_samples_def
    rule_randomness_def randomness_issue_def rule_extreme_effects_def extreme_effect_issue_def
    rule_syntax_balance_def rule_invalid_methods_def rule_effect_density_def
    rule_dangerous_patterns_def
  by (simp only: ValidationResult.simps append_Nil append_assoc)

lemma validateStrudelCode_valid:
  "valid (validateStrudelCode render src config)
     = (issues (validateStrudelCode render src config) = [])"
  unfolding validateStrudelCode_def Let_def
  by (simp only: ValidationResult.simps length_0_conv)

text \<open>
  Claim C3. \<open>validateStrudelCode\<close> is a function of its arguments; its issue list is the
  concatenation, in the fixed order, of what each of the ten rules contributes on its own
  (no rule is skipped because an earlier one failed), and \<open>valid\<close> holds exactly when the
  list is empty. On an artifact that breaks six rules at once all their issues appear
  together.
\<close>

theorem validateStrudelCode_aggregates:
  "issues (validateStrudelCode render src config)
     = concat (map (\<lambda>check. check render (merge_config DEFAULT_CONFIG config) src) rule_checks)
   \<and> rule_checks =
       [rule_voice_count, rule_line_budget, rule_tempo, rule_forbidden_samples,
        rule_randomness, rule_extreme_effects, rule_syntax_balance, rule_invalid_methods,
        rule_effect_density, rule_dangerous_patterns]
   \<and> valid (validateStrudelCode render src config)
       = (issues (validateStrudelCode render src config) = [])
   \<and> validateStrudelCode render many_failures no_overrides =
       \<lparr>valid = False,
        issues =
          [''code too short - add more content'',
           ''missing setcpm() - set tempo at the start'',
           ''extreme effect values detected - reduce delay feedback (max ''
             @ render 6305039478318694 (- 53) @ ''), reverb (max ''
             @ render 8556839292003942 (- 53) @ ''), or gain (max 2.0)'',
           ''unbalanced parentheses: 4 opening '' @ [SQ] @ ''('' @ [SQ] @ '' vs 3 closing ''
             @ [SQ] @ '')'' @ [SQ],
           ''invalid method .note(...) - use note(...) or .detune(...) instead'',
           ''string literal method call detected - apply transforms to patterns, not strings'',
           ''extremely fast pattern detected (>64x) - may cause audio glitches'']\<rparr>"
proof -
  have "validateStrudelCode render many_failures no_overrides =
       \<lparr>valid = False,
        issues =
          [''code too short - add more content'',
           ''missing setcpm() - set tempo at the start'',
           ''extreme effect values detected - reduce delay feedback (max ''
             @ render 6305039478318694 (- 53) @ ''), reverb (max ''
             @ render 8556839292003942 (- 53) @ ''), or gain (max 2.0)'',
           ''unbalanced parentheses: 4 opening '' @ [SQ] @ ''('' @ [SQ] @ '' vs 3 closing ''
             @ [SQ] @ '')'' @ [SQ],
           ''invalid method .note(...) - use note(...) or .detune(...) instead'',
           ''string literal method call detected - apply transforms to patterns, not strings'',
           ''extremely fast pattern detected (>64x) - may cause audio glitches'']\<rparr>"
    unfolding many_failures_def by code_simp
  then show ?thesis
    by (simp add: validateStrudelCode_issues validateStrudelCode_valid rule_checks_def)
qed

subsection \<open>Which rule an issue comes from\<close>


lemma angle_issue_Some:
  "angle_issue strs = Some m \<Longrightarrow> is_mini_notation_issue m \<and> \<not> is_randomness_issue m \<and> m \<noteq> []"
  by (induction strs)
     (auto simp: Let_def is_mini_notation_issue_def is_randomness_issue_def startsWith_def
           split: if_splits)

lemma getSyntaxIssue_not_randomness:
  "getSyntaxIssue src = Some m \<Longrightarrow> \<not> is_randomness_issue m"
  by (auto simp: getSyntaxIssue_def Let_def is_randomness_issue_def startsWith_def
           dest: angle_issue_Some split: if_splits)



lemma rule_syntax_balance_not_randomness:
  "\<not> list_ex is_randomness_issue (rule_syntax_balance render cfg src)"
  using getSyntaxIssue_not_randomness[of src]
  by (auto simp: rule_syntax_balance_def split: option.splits)

lemma other_rules_not_randomness:
  "\<not> list_ex is_randomness_issue (rule_voice_count render cfg src)"
  "\<not> list_ex is_randomness_issue (rule_line_budget render cfg src)"
  "\<not> list_ex is_randomness_issue (rule_tempo render cfg src)"
  "\<not> list_ex is_randomness_issue (rule_forbidden_samples render cfg src)"
  "\<not> list_ex is_randomness_issue (rule_extreme_effects render cfg src)"
  "\<not> list_ex is_randomness_issue (rule_invalid_methods render cfg src)"
  "\<not> list_ex is_randomness_issue (rule_effect_density render cfg src)"
  "\<not> list_ex is_randomness_issue (rule_dangerous_patterns render cfg src)"
  by (simp_all add: rule_voice_count_def rule_line_budget_def rule_tempo_def
        rule_forbidden_samples_def rule_extreme_effects_def extreme_effect_issue_def
        rule_invalid_methods_def findInvalidMethodUsage_def push_when_def
        rule_effect_density_def rule_dangerous_patterns_def hasDangerousPatterns_def
        is_randomness_issue_def startsWith_def Let_def)


lemma rule_randomness_iff:
  "list_ex is_randomness_issue (rule_randomness render cfg src)
     \<longleftrightarrow> js_gt (count_num (countRandomUsage src)) (maxRandomUsage cfg)"
  by (simp add: rule_randomness_def randomness_issue_def is_randomness_issue_def startsWith_def)

lemma randomness_reported_iff:
  "list_ex is_randomness_issue (issues (validateStrudelCode render src config))
     \<longleftrightarrow> js_gt (count_num (countRandomUsage src))
           (maxRandomUsage (merge_config DEFAULT_CONFIG config))"
  by (simp add: validateStrudelCode_issues other_rules_not_randomness
        rule_syntax_balance_not_randomness rule_randomness_iff)



subsection \<open>The randomness budget\<close>

lemma rule_randomness_member:
  "js_gt (count_num (countRandomUsage src)) (maxRandomUsage cfg)
     \<Longrightarrow> randomness_issue render cfg src \<in> set (rule_randomness render cfg src)"
  by (simp add: rule_randomness_def)

lemma randomness_issue_member:
  "js_gt (count_num (countRandomUsage src)) (maxRandomUsage (merge_config DEFAULT_CONFIG config))
     \<Longrightarrow> randomness_issue render (merge_config DEFAULT_CONFIG config) src
           \<in> set (issues (validateStrudelCode render src config))"
  by (simp add: validateStrudelCode_issues rule_randomness_member)

lemma randomness_issue_16_15:
  "maxRandomUsage cfg = Num 15 0 \<Longrightarrow> countRandomUsage src = 16 \<Longrightarrow>
   randomness_issue render cfg src
     = ''excessive randomness (16/15 max) - reduce variation techniques''"
proof -
  assume a: "maxRandomUsage cfg = Num 15 0" "countRandomUsage src = 16"
  have "show_nat 16 = ''16''" "number_text render (Num 15 0) = ''15''"
    by code_simp+
  with a show ?thesis by (simp add: randomness_issue_def)
qed

text \<open>
  Claim C7. The randomness count is the sum of the matches of the three patterns (calls of
  \<open>rand\<close> or \<open>irand\<close>, references to \<open>perlin\<close>, calls of the seven probability transforms).
  A randomness issue is reported exactly when the count exceeds \<open>maxRandomUsage\<close>, and its
  text cites the count over the limit: with limit 15, a count of 9 gives no randomness
  issue and a count of 16 gives the issue with \<open>16/15\<close>.
\<close>

theorem randomness_budget:
  "countRandomUsage src
     = length (match_texts rx_rand src) + length (match_texts rx_perlin src)
       + length (match_texts rx_prob src)
   \<and> (list_ex is_randomness_issue (issues (validateStrudelCode render src config))
        \<longleftrightarrow> js_gt (count_num (countRandomUsage src))
              (maxRandomUsage (merge_config DEFAULT_CONFIG config)))
   \<and> (js_gt (count_num (countRandomUsage src))
              (maxRandomUsage (merge_config DEFAULT_CONFIG config))
        \<longrightarrow> (''excessive randomness ('' @ show_nat (countRandomUsage src) @ ''/''
              @ number_text render (maxRandomUsage (merge_config DEFAULT_CONFIG config))
              @ '' max) - reduce variation techniques'')
             \<in> set (issues (validateStrudelCode render src config)))
   \<and> (maxRandomUsage (merge_config DEFAULT_CONFIG config) = Num 15 0
        \<and> countRandomUsage src = 9
        \<longrightarrow> \<not> list_ex is_randomness_issue (issues (validateStrudelCode render src config)))
   \<and> (maxRandomUsage (merge_config DEFAULT_CONFIG config) = Num 15 0
        \<and> countRandomUsage src = 16
        \<longrightarrow> ''excessive randomness (16/15 max) - reduce variation techniques''
             \<in> set (issues (validateStrudelCode render src config)))"
proof (intro conjI impI)
  show "countRandomUsage src
     = length (match_texts rx_rand src) + length (match_texts rx_perlin src)
       + length (match_texts rx_prob src)"
    by (simp add: countRandomUsage_def Let_def)
next
  show "list_ex is_randomness_issue (issues (validateStrudelCode render src config))
        \<longleftrightarrow> js_gt (count_num (countRandomUsage src))
              (maxRandomUsage (merge_config DEFAULT_CONFIG config))"
    by (rule randomness_reported_iff)
next
  assume "js_gt (count_num (countRandomUsage src))
              (maxRandomUsage (merge_config DEFAULT_CONFIG config))"
  then show "(''excessive randomness ('' @ show_nat (countRandomUsage src) @ ''/''
              @ number_text render (maxRandomUsage (merge_config DEFAULT_CONFIG config))
              @ '' max) - reduce variation techniques'')
             \<in> set (issues (validateStrudelCode render src config))"
    using randomness_issue_member[of src config render] by (simp add: randomness_issue_def)
next
  assume "maxRandomUsage (merge_config DEFAULT_CONFIG config) = Num 15 0
        \<and> countRandomUsage src = 9"
  then show "\<not> list_ex is_randomness_issue (issues (validateStrudelCode render src config))"
    by (simp add: randomness_reported_iff count_num_def scale_up_def)
next
  assume a: "maxRandomUsage (merge_config DEFAULT_CONFIG config) = Num 15 0
        \<and> countRandomUsage src = 16"
  then have "js_gt (count_num (countRandomUsage src))
              (maxRandomUsage (merge_config DEFAULT_CONFIG config))"
    by (simp add: count_num_def scale_up_def)
  then have "randomness_issue render (merge_config DEFAULT_CONFIG config) src
           \<in> set (issues (validateStrudelCode render src config))"
    by (rule randomness_issue_member)
  with a show "''excessive randomness (16/15 max) - reduce variation techniques''
             \<in> set (issues (validateStrudelCode render src config))"
    by (simp add: randomness_issue_16_15)
qed

theorem randomness_budget_witness:
  "countRandomUsage nine_random = 9
   \<and> \<not> list_ex is_randomness_issue (issues (validateStrudelCode plain_render nine_random no_overrides))
   \<and> countRandomUsage sixteen_random = 16
   \<and> js_gt (count_num (countRandomUsage sixteen_random))
        (maxRandomUsage (merge_config DEFAULT_CONFIG no_overrides))
   \<and> ''excessive randomness (16/15 max) - reduce variation techniques''
        \<in> set (issues (validateStrudelCode plain_render sixteen_random no_overrides))"
proof -
  have m: "maxRandomUsage (merge_config DEFAULT_CONFIG no_overrides) = Num 15 0"
    by (simp add: merge_config_def DEFAULT_CONFIG_def no_overrides_def spread_def)
  have n: "countRandomUsage nine_random = 9"
    unfolding nine_random_def by code_simp
  have s: "countRandomUsage sixteen_random = 16"
    unfolding sixteen_random_def by code_simp
  have g: "js_gt (count_num (countRandomUsage sixteen_random))
        (maxRandomUsage (merge_config DEFAULT_CONFIG no_overrides))"
    by (simp add: m s count_num_def scale_up_def)
  from m n randomness_budget [of nine_random plain_render no_overrides]
  have 1: "\<not> list_ex is_randomness_issue
             (issues (validateStrudelCode plain_render nine_random no_overrides))"
    by blast
  from m s randomness_budget [of sixteen_random plain_render no_overrides]
  have 2: "''excessive randomness (16/15 max) - reduce variation techniques''
        \<in> set (issues (validateStrudelCode plain_render sixteen_random no_overrides))"
    by blast
  from n s g 1 2 show ?thesis by blast
qed

subsection \<open>Scanning for matches\<close>

lemma match_all_skip:
  "match_all m (length v) p (v @ r) = match_all m 0 (if v = [] then p else Some (last v)) r"
  by (induction v arbitrary: p) auto

lemma match_all_prev:
  assumes "\<And>p q s. m p s = m q s"
  shows "match_all m k p s = match_all m k q s"
proof (cases s)
  case Nil
  then show ?thesis
    using assms [of p "[]" q] by simp
next
  case (Cons c cs)
  then show ?thesis
    using assms [of p "c # cs" q] by (cases k) simp_all
qed

lemma regex_test_prev:
  assumes "\<And>p q s. m p s = m q s"
  shows "regex_test m p s = regex_test m q s"
proof (cases s)
  case Nil
  then show ?thesis using assms [of p "[]" q] by simp
next
  case (Cons c cs)
  then show ?thesis using assms [of p "c # cs" q] by simp
qed

lemma includes_str_Cons:
  "includes_str (c # s) needle \<longleftrightarrow> strip_prefix needle (c # s) \<noteq> None \<or> includes_str s needle"
  using regex_test_prev [where m = "\<lambda>prev t. strip_prefix needle t" and p = "Some c"
          and q = None and s = s]
  by (simp add: includes_str_def)

lemma room_prefix_no_straddle:
  assumes "w \<noteq> []" and "strip_prefix ''.room'' w = None"
  shows "strip_prefix ''.room'' (w @ CHR ''.'' # s) = None"
proof -
  have a: "strip_prefix [x] (v @ CHR ''.'' # s) = None"
    if "strip_prefix [x] v = None" "x \<noteq> CHR ''.''" for x v
    using that by (cases v) (auto split: if_splits)
  have b: "strip_prefix [x, y] (v @ CHR ''.'' # s) = None"
    if "strip_prefix [x, y] v = None" "x \<noteq> CHR ''.''" "y \<noteq> CHR ''.''" for x y v
    using that a [of y "tl v"] by (cases v) (auto split: if_splits)
  have c: "strip_prefix [x, y, z] (v @ CHR ''.'' # s) = None"
    if "strip_prefix [x, y, z] v = None" "x \<noteq> CHR ''.''" "y \<noteq> CHR ''.''" "z \<noteq> CHR ''.''"
    for x y z v
    using that b [of y z "tl v"] by (cases v) (auto split: if_splits)
  have d: "strip_prefix ''room'' (v @ CHR ''.'' # s) = None"
    if "strip_prefix ''room'' v = None" for v
    using that c [of "CHR ''o''" "CHR ''o''" "CHR ''m''" "tl v"]
    by (cases v) (auto split: if_splits)
  from assms d [of "tl w"] show ?thesis
    by (cases w) (auto split: if_splits)
qed

lemma room_scan_prefix:
  "\<not> includes_str pre ''.room'' \<Longrightarrow>
   match_all (with_text (rx_call_number ''.room'')) 0 p (pre @ CHR ''.'' # s)
     = match_all (with_text (rx_call_number ''.room'')) 0 q (CHR ''.'' # s)"
proof (induction pre arbitrary: p)
  case Nil
  show ?case
    by (simp only: append_Nil)
       (rule match_all_prev, simp add: with_text_def rx_call_number_def rx_call_open_def)
next
  case (Cons c pre)
  from Cons.prems have n: "strip_prefix ''.room'' (c # pre) = None"
    and r: "\<not> includes_str pre ''.room''"
    by (simp_all add: includes_str_Cons)
  have "strip_prefix ''.room'' ((c # pre) @ CHR ''.'' # s) = None"
    using n by (intro room_prefix_no_straddle) simp_all
  then have "with_text (rx_call_number ''.room'') p (c # pre @ CHR ''.'' # s) = None"
    by (simp add: with_text_def rx_call_number_def rx_call_open_def)
  then have "match_all (with_text (rx_call_number ''.room'')) 0 p ((c # pre) @ CHR ''.'' # s)
        = match_all (with_text (rx_call_number ''.room'')) 0 (Some c) (pre @ CHR ''.'' # s)"
    by simp
  with Cons.IH [OF r, of "Some c"] show ?case by simp
qed

lemma room_scan_none:
  "\<not> includes_str t ''.room'' \<Longrightarrow>
   match_all (with_text (rx_call_number ''.room'')) 0 p t = []"
proof (induction t arbitrary: p)
  case Nil
  show ?case
    by (simp add: with_text_def rx_call_number_def rx_call_open_def)
next
  case (Cons c t)
  from Cons.prems have n: "strip_prefix ''.room'' (c # t) = None"
    and r: "\<not> includes_str t ''.room''"
    by (simp_all add: includes_str_Cons)
  from n have "with_text (rx_call_number ''.room'') p (c # t) = None"
    by (simp add: with_text_def rx_call_number_def rx_call_open_def)
  with Cons.IH [OF r, of "Some c"] show ?case by simp
qed

lemma room_call_match:
  assumes "v \<noteq> []" and "list_all is_digit_or_dot v"
  shows "with_text (rx_call_number ''.room'') p (''.room('' @ v @ CHR '')'' # post)
           = Some (''.room('' @ v, CHR '')'' # post)"
proof -
  have tw: "takeWhile is_digit_or_dot (v @ CHR '')'' # post) = v"
    "dropWhile is_digit_or_dot (v @ CHR '')'' # post) = CHR '')'' # post"
    using assms(2)
    by (simp_all add: list_all_iff is_digit_or_dot_def is_digit_def)
  have sp: "dropWhile is_space (v @ CHR '')'' # post) = v @ CHR '')'' # post"
  proof (cases v)
    case Nil
    with assms(1) show ?thesis by simp
  next
    case (Cons a v')
    with assms(2) have "\<not> is_space a"
      by (auto simp: is_digit_or_dot_def is_digit_def is_space_def)
    with Cons show ?thesis by simp
  qed
  have tk: "take (6 + length v) (''.room('' @ v @ CHR '')'' # post) = ''.room('' @ v"
    by (simp add: numeral_eq_Suc)
  show ?thesis
    using assms(1) tk by (simp add: with_text_def rx_call_number_def rx_call_open_def ws_paren_def
          is_space_def tw sp)
qed

lemma room_call_argument:
  assumes "v \<noteq> []" and "list_all is_digit_or_dot v"
  shows "remove_first (rx_call_open ''.room'') None (''.room('' @ v) = v"
proof -
  have "dropWhile is_space v = v"
  proof (cases v)
    case Nil
    with assms(1) show ?thesis by simp
  next
    case (Cons a v')
    with assms(2) have "\<not> is_space a"
      by (auto simp: is_digit_or_dot_def is_digit_def is_space_def)
    with Cons show ?thesis by simp
  qed
  then show ?thesis
    by (simp add: rx_call_open_def ws_paren_def is_space_def)
qed

lemma match_all_hit:
  "m p (c # u @ r) = Some (a, r) \<Longrightarrow>
   match_all m 0 p (c # u @ r) = a # match_all m 0 (if u = [] then Some c else Some (last u)) r"
  by (simp add: match_all_skip)

lemma room_call_found:
  assumes "\<not> includes_str pre ''.room''" and "v \<noteq> []" and "list_all is_digit_or_dot v"
  shows "call_arguments ''.room'' (pre @ ''.room('' @ v @ CHR '')'' # post)
           = v # map (remove_first (rx_call_open ''.room'') None)
                   (match_all (with_text (rx_call_number ''.room'')) 0 None (CHR '')'' # post))"
proof -
  let ?m = "with_text (rx_call_number ''.room'')"
  have ind: "match_all ?m k a s = match_all ?m k b s" for k a b s
    by (rule match_all_prev) (simp add: with_text_def rx_call_number_def rx_call_open_def)
  have 1: "match_all ?m 0 None (pre @ CHR ''.'' # (''room('' @ v) @ CHR '')'' # post)
          = match_all ?m 0 None (CHR ''.'' # (''room('' @ v) @ CHR '')'' # post)"
    by (rule room_scan_prefix) (rule assms(1))
  have hit: "?m None (CHR ''.'' # (''room('' @ v) @ CHR '')'' # post)
               = Some (''.room('' @ v, CHR '')'' # post)"
    using room_call_match [OF assms(2,3), of None post] by simp
  have 2: "match_all ?m 0 None (CHR ''.'' # (''room('' @ v) @ CHR '')'' # post)
          = (''.room('' @ v)
            # match_all ?m 0 (if ''room('' @ v = [] then Some (CHR ''.'')
                               else Some (last (''room('' @ v))) (CHR '')'' # post)"
    by (rule match_all_hit) (rule hit)
  have 3: "match_all ?m 0 (if ''room('' @ v = [] then Some (CHR ''.'')
                               else Some (last (''room('' @ v))) (CHR '')'' # post)
          = match_all ?m 0 None (CHR '')'' # post)"
    by (rule ind)
  have "match_texts (rx_call_number ''.room'') (pre @ ''.room('' @ v @ CHR '')'' # post)
          = match_all ?m 0 None (pre @ CHR ''.'' # (''room('' @ v) @ CHR '')'' # post)"
    by (simp add: match_texts_def)
  also note 1
  also note 2
  finally have "match_texts (rx_call_number ''.room'') (pre @ ''.room('' @ v @ CHR '')'' # post)
          = (''.room('' @ v) # match_all ?m 0 None (CHR '')'' # post)"
    by (simp only: 3)
  then show ?thesis
    unfolding call_arguments_def
    by (simp only: list.map room_call_argument [OF assms(2,3)])
qed

lemma room_call_only:
  assumes "\<not> includes_str pre ''.room''" and "\<not> includes_str post ''.room''"
    and "v \<noteq> []" and "list_all is_digit_or_dot v"
  shows "call_arguments ''.room'' (pre @ ''.room('' @ v @ CHR '')'' # post) = [v]"
proof -
  have "\<not> includes_str (CHR '')'' # post) ''.room''"
    using assms(2) by (simp add: includes_str_Cons)
  then have e: "match_all (with_text (rx_call_number ''.room'')) 0 None (CHR '')'' # post) = []"
    by (rule room_scan_none)
  show ?thesis
    by (simp only: room_call_found [OF assms(1,3,4)] e list.map)
qed

subsection \<open>The room-size boundary\<close>

lemma effect_above_arguments:
  "effect_above name limit src
     \<longleftrightarrow> list_ex (\<lambda>a. js_gt (parseFloat a) limit) (call_arguments name src)"
  by (simp add: effect_above_def call_arguments_def list_ex_iff)

lemma hasExtremeEffects_arguments:
  "hasExtremeEffects src cfg \<longleftrightarrow>
     list_ex (\<lambda>a. js_gt (parseFloat a) (maxDelayFeedback cfg)) (call_arguments ''.delayfeedback'' src)
     \<or> list_ex (\<lambda>a. js_gt (parseFloat a) (maxRoomSize cfg)) (call_arguments ''.room'' src)
     \<or> list_ex (\<lambda>a. js_gt (parseFloat a) (Num 2 0)) (call_arguments ''.gain'' src)"
  by (simp add: hasExtremeEffects_def effect_above_arguments)

lemma angle_issue_not_extreme:
  "angle_issue strs = Some m \<Longrightarrow> \<not> is_extreme_effect_issue m"
  by (induction strs)
     (auto simp: Let_def is_extreme_effect_issue_def startsWith_def split: if_splits)

lemma getSyntaxIssue_not_extreme:
  "getSyntaxIssue src = Some m \<Longrightarrow> \<not> is_extreme_effect_issue m"
  by (auto simp: getSyntaxIssue_def Let_def is_extreme_effect_issue_def startsWith_def
           dest: angle_issue_not_extreme split: if_splits)

lemma other_rules_not_extreme:
  "\<not> list_ex is_extreme_effect_issue (rule_voice_count render cfg src)"
  "\<not> list_ex is_extreme_effect_issue (rule_line_budget render cfg src)"
  "\<not> list_ex is_extreme_effect_issue (rule_tempo render cfg src)"
  "\<not> list_ex is_extreme_effect_issue (rule_forbidden_samples render cfg src)"
  "\<not> list_ex is_extreme_effect_issue (rule_randomness render cfg src)"
  "\<not> list_ex is_extreme_effect_issue (rule_invalid_methods render cfg src)"
  "\<not> list_ex is_extreme_effect_issue (rule_effect_density render cfg src)"
  "\<not> list_ex is_extreme_effect_issue (rule_dangerous_patterns render cfg src)"
  by (simp_all add: rule_voice_count_def rule_line_budget_def rule_tempo_def
        rule_forbidden_samples_def rule_randomness_def randomness_issue_def
        rule_invalid_methods_def findInvalidMethodUsage_def push_when_def
        rule_effect_density_def rule_dangerous_patterns_def hasDangerousPatterns_def
        is_extreme_effect_issue_def startsWith_def Let_def)

lemma rule_syntax_balance_not_extreme:
  "\<not> list_ex is_extreme_effect_issue (rule_syntax_balance render cfg src)"
  using getSyntaxIssue_not_extreme[of src]
  by (auto simp: rule_syntax_balance_def split: option.splits)

lemma rule_extreme_effects_iff:
  "list_ex is_extreme_effect_issue (rule_extreme_effects render cfg src)
     \<longleftrightarrow> hasExtremeEffects src cfg"
  by (simp add: rule_extreme_effects_def extreme_effect_issue_def is_extreme_effect_issue_def
        startsWith_def)

lemma extreme_reported_iff:
  "list_ex is_extreme_effect_issue (issues (validateStrudelCode render src config))
     \<longleftrightarrow> hasExtremeEffects src (merge_config DEFAULT_CONFIG config)"
  by (simp add: validateStrudelCode_issues other_rules_not_extreme
        rule_syntax_balance_not_extreme rule_extreme_effects_iff)

lemma extreme_issue_member:
  "hasExtremeEffects src (merge_config DEFAULT_CONFIG config) \<Longrightarrow>
   extreme_effect_issue render (merge_config DEFAULT_CONFIG config)
     \<in> set (issues (validateStrudelCode render src config))"
  by (simp add: validateStrudelCode_issues rule_extreme_effects_def)

lemma default_policy:
  "merge_config DEFAULT_CONFIG no_overrides = DEFAULT_CONFIG"
  by (simp add: merge_config_def DEFAULT_CONFIG_def no_overrides_def spread_def)

lemma room_ceiling:
  "maxRoomSize DEFAULT_CONFIG = parseFloat ''0.95''"
  "\<not> js_gt (parseFloat ''0.95'') (maxRoomSize DEFAULT_CONFIG)"
  "js_gt (parseFloat ''0.96'') (maxRoomSize DEFAULT_CONFIG)"
  by code_simp+

text \<open>
  Claim C8, as stated, fails when read of every artifact that contains the text of the
  call. First, the pattern takes the longest run of digits and dots as the number text, so
  a match can swallow the dot that starts the next call: in the pair of artifacts below,
  identical but for \<open>.room(0.95)\<close> and \<open>.room(0.96)\<close>, the only call found is \<open>.room(0.\<close>
  with the value 0, and both are accepted. Second, the issue is one for three effects: an
  artifact whose room call is \<open>.room(0.95)\<close> gets it when its gain is above 2.
\<close>

theorem swallowed_room_call_accepted:
  "swallowed_room_call ''0.96'' =
     ''setcpm(60)\<newline>$: s(\"bd\")\<newline>  .room(0'' @ ''.room(0.96)'' @ '')\<newline>  .gain(0.5)\<newline>  .pan(0.5)''
   \<and> swallowed_room_call ''0.95'' =
     ''setcpm(60)\<newline>$: s(\"bd\")\<newline>  .room(0'' @ ''.room(0.95)'' @ '')\<newline>  .gain(0.5)\<newline>  .pan(0.5)''
   \<and> call_arguments ''.room'' (swallowed_room_call ''0.96'') = [''0.'']
   \<and> \<not> hasExtremeEffects (swallowed_room_call ''0.96'') (merge_config DEFAULT_CONFIG no_overrides)
   \<and> validateStrudelCode plain_render (swallowed_room_call ''0.96'') no_overrides
       = \<lparr>valid = True, issues = []\<rparr>
   \<and> validateStrudelCode plain_render (swallowed_room_call ''0.95'') no_overrides
       = \<lparr>valid = True, issues = []\<rparr>
   \<and> call_arguments ''.room'' loud_room_artifact = [''0.95'']
   \<and> validateStrudelCode plain_render loud_room_artifact no_overrides
       = \<lparr>valid = False,
          issues = [''extreme effect values detected - reduce delay feedback (max ''
                    @ ''?'' @ ''), reverb (max '' @ ''?'' @ ''), or gain (max 2.0)'']\<rparr>"
proof -
  have 1: "swallowed_room_call ''0.96'' =
     ''setcpm(60)\<newline>$: s(\"bd\")\<newline>  .room(0'' @ ''.room(0.96)'' @ '')\<newline>  .gain(0.5)\<newline>  .pan(0.5)''"
    "swallowed_room_call ''0.95'' =
     ''setcpm(60)\<newline>$: s(\"bd\")\<newline>  .room(0'' @ ''.room(0.95)'' @ '')\<newline>  .gain(0.5)\<newline>  .pan(0.5)''"
    by (simp_all add: swallowed_room_call_def room_artifact_def)
  have 2: "call_arguments ''.room'' (swallowed_room_call ''0.96'') = [''0.'']"
    "\<not> hasExtremeEffects (swallowed_room_call ''0.96'') (merge_config DEFAULT_CONFIG no_overrides)"
    "validateStrudelCode plain_render (swallowed_room_call ''0.96'') no_overrides
       = \<lparr>valid = True, issues = []\<rparr>"
    "validateStrudelCode plain_render (swallowed_room_call ''0.95'') no_overrides
       = \<lparr>valid = True, issues = []\<rparr>"
    unfolding swallowed_room_call_def room_artifact_def by code_simp+
  have 3: "call_arguments ''.room'' loud_room_artifact = [''0.95'']"
    "validateStrudelCode plain_render loud_room_artifact no_overrides
       = \<lparr>valid = False,
          issues = [''extreme effect values detected - reduce delay feedback (max ''
                    @ ''?'' @ ''), reverb (max '' @ ''?'' @ ''), or gain (max 2.0)'']\<rparr>"
    unfolding loud_room_artifact_def by code_simp+
  from 1 2 3 show ?thesis by blast
qed

lemma room_above_ceiling:
  assumes "list_ex (\<lambda>a. a = ''0.96'') (call_arguments ''.room'' src)"
  shows "\<not> valid (validateStrudelCode render src no_overrides)
         \<and> extreme_effect_issue render DEFAULT_CONFIG
             \<in> set (issues (validateStrudelCode render src no_overrides))"
proof -
  from assms have "list_ex (\<lambda>a. js_gt (parseFloat a) (maxRoomSize DEFAULT_CONFIG))
                     (call_arguments ''.room'' src)"
    using room_ceiling(3) by (auto simp: list_ex_iff)
  then have h: "hasExtremeEffects src (merge_config DEFAULT_CONFIG no_overrides)"
    by (simp only: default_policy hasExtremeEffects_arguments) simp
  from extreme_issue_member [OF h, of render]
  have m: "extreme_effect_issue render DEFAULT_CONFIG
            \<in> set (issues (validateStrudelCode render src no_overrides))"
    by (simp only: default_policy)
  then have "issues (validateStrudelCode render src no_overrides) \<noteq> []"
    by auto
  with m show ?thesis
    by (simp add: validateStrudelCode_valid)
qed

lemma room_at_ceiling:
  assumes "list_all (\<lambda>a. a = ''0.95'') (call_arguments ''.room'' src)"
    and "\<not> list_ex (\<lambda>a. js_gt (parseFloat a) (maxDelayFeedback DEFAULT_CONFIG))
             (call_arguments ''.delayfeedback'' src)"
    and "\<not> list_ex (\<lambda>a. js_gt (parseFloat a) (Num 2 0)) (call_arguments ''.gain'' src)"
  shows "\<not> list_ex is_extreme_effect_issue (issues (validateStrudelCode render src no_overrides))"
proof -
  from assms(1) have "\<not> list_ex (\<lambda>a. js_gt (parseFloat a) (maxRoomSize DEFAULT_CONFIG))
                         (call_arguments ''.room'' src)"
    using room_ceiling(2) by (auto simp: list_ex_iff list_all_iff)
  with assms(2,3) show ?thesis
    by (simp only: extreme_reported_iff default_policy hasExtremeEffects_arguments) simp
qed

lemma number_texts:
  "''0.95'' \<noteq> []" "list_all is_digit_or_dot ''0.95''"
  "''0.96'' \<noteq> []" "list_all is_digit_or_dot ''0.96''"
  by (simp_all add: is_digit_or_dot_def is_digit_def)

text \<open>
  Claim C8, amended. Under the default policy the room-size ceiling is the double \<open>0.95\<close>.
  For every artifact the extreme-effect issue is reported exactly when some call that the
  validator finds (a match of \<open>.delayfeedback(\<close>, \<open>.room(\<close> or \<open>.gain(\<close> followed by its
  number text, taken from left to right without overlap) has a value above its ceiling:
  0.7, 0.95 and 2. The number text \<open>0.95\<close> is not above the room ceiling and \<open>0.96\<close> is.
  So every artifact in which a \<open>.room(\<close> call is found with the number text \<open>0.96\<close> is
  rejected with the extreme-effect issue, and this is every artifact in which the call
  \<open>.room(0.96)\<close> is the first occurrence of \<open>.room\<close>. An artifact whose \<open>.room(\<close> calls
  are all found with the number text \<open>0.95\<close>, as when the call \<open>.room(0.95)\<close> is the only
  occurrence of \<open>.room\<close>, and which has no feedback or gain call above its ceiling, gets
  no extreme-effect issue.
\<close>

theorem room_size_boundary:
  "merge_config DEFAULT_CONFIG no_overrides = DEFAULT_CONFIG
   \<and> maxRoomSize DEFAULT_CONFIG = parseFloat ''0.95''
   \<and> \<not> js_gt (parseFloat ''0.95'') (maxRoomSize DEFAULT_CONFIG)
   \<and> js_gt (parseFloat ''0.96'') (maxRoomSize DEFAULT_CONFIG)
   \<and> (list_ex is_extreme_effect_issue (issues (validateStrudelCode render src no_overrides))
        \<longleftrightarrow> list_ex (\<lambda>a. js_gt (parseFloat a) (maxDelayFeedback DEFAULT_CONFIG))
               (call_arguments ''.delayfeedback'' src)
            \<or> list_ex (\<lambda>a. js_gt (parseFloat a) (maxRoomSize DEFAULT_CONFIG))
                 (call_arguments ''.room'' src)
            \<or> list_ex (\<lambda>a. js_gt (parseFloat a) (Num 2 0)) (call_arguments ''.gain'' src))
   \<and> (list_ex (\<lambda>a. a = ''0.96'') (call_arguments ''.room'' src) \<longrightarrow>
        \<not> valid (validateStrudelCode render src no_overrides)
        \<and> extreme_effect_issue render DEFAULT_CONFIG
            \<in> set (issues (validateStrudelCode render src no_overrides)))
   \<and> (list_all (\<lambda>a. a = ''0.95'') (call_arguments ''.room'' src)
        \<and> \<not> list_ex (\<lambda>a. js_gt (parseFloat a) (maxDelayFeedback DEFAULT_CONFIG))
              (call_arguments ''.delayfeedback'' src)
        \<and> \<not> list_ex (\<lambda>a. js_gt (parseFloat a) (Num 2 0)) (call_arguments ''.gain'' src)
        \<longrightarrow> \<not> list_ex is_extreme_effect_issue
                (issues (validateStrudelCode render src no_overrides)))
   \<and> (\<not> includes_str pre ''.room'' \<longrightarrow>
        \<not> valid (validateStrudelCode render (pre @ ''.room(0.96)'' @ post) no_overrides)
        \<and> extreme_effect_issue render DEFAULT_CONFIG
            \<in> set (issues (validateStrudelCode render (pre @ ''.room(0.96)'' @ post)
                              no_overrides)))
   \<and> (\<not> includes_str pre ''.room'' \<and> \<not> includes_str post ''.room''
        \<and> \<not> list_ex (\<lambda>a. js_gt (parseFloat a) (maxDelayFeedback DEFAULT_CONFIG))
              (call_arguments ''.delayfeedback'' (pre @ ''.room(0.95)'' @ post))
        \<and> \<not> list_ex (\<lambda>a. js_gt (parseFloat a) (Num 2 0))
              (call_arguments ''.gain'' (pre @ ''.room(0.95)'' @ post))
        \<longrightarrow> \<not> list_ex is_extreme_effect_issue
                (issues (validateStrudelCode render (pre @ ''.room(0.95)'' @ post)
                           no_overrides)))"
proof -
  have iff: "list_ex is_extreme_effect_issue (issues (validateStrudelCode render src no_overrides))
        \<longleftrightarrow> list_ex (\<lambda>a. js_gt (parseFloat a) (maxDelayFeedback DEFAULT_CONFIG))
               (call_arguments ''.delayfeedback'' src)
            \<or> list_ex (\<lambda>a. js_gt (parseFloat a) (maxRoomSize DEFAULT_CONFIG))
                 (call_arguments ''.room'' src)
            \<or> list_ex (\<lambda>a. js_gt (parseFloat a) (Num 2 0)) (call_arguments ''.gain'' src)"
    by (simp only: extreme_reported_iff default_policy hasExtremeEffects_arguments)
  have above: "list_ex (\<lambda>a. a = ''0.96'') (call_arguments ''.room'' src) \<longrightarrow>
        \<not> valid (validateStrudelCode render src no_overrides)
        \<and> extreme_effect_issue render DEFAULT_CONFIG
            \<in> set (issues (validateStrudelCode render src no_overrides))"
    using room_above_ceiling [of src render] by blast
  have below: "list_all (\<lambda>a. a = ''0.95'') (call_arguments ''.room'' src)
        \<and> \<not> list_ex (\<lambda>a. js_gt (parseFloat a) (maxDelayFeedback DEFAULT_CONFIG))
              (call_arguments ''.delayfeedback'' src)
        \<and> \<not> list_ex (\<lambda>a. js_gt (parseFloat a) (Num 2 0)) (call_arguments ''.gain'' src)
        \<longrightarrow> \<not> list_ex is_extreme_effect_issue
                (issues (validateStrudelCode render src no_overrides))"
    using room_at_ceiling [of src render] by blast
  have first: "\<not> includes_str pre ''.room'' \<longrightarrow>
        \<not> valid (validateStrudelCode render (pre @ ''.room(0.96)'' @ post) no_overrides)
        \<and> extreme_effect_issue render DEFAULT_CONFIG
            \<in> set (issues (validateStrudelCode render (pre @ ''.room(0.96)'' @ post)
                              no_overrides))"
  proof
    assume "\<not> includes_str pre ''.room''"
    from room_call_found [OF this number_texts(3,4), of post]
    have "list_ex (\<lambda>a. a = ''0.96'') (call_arguments ''.room'' (pre @ ''.room(0.96)'' @ post))"
      by simp
    then show "\<not> valid (validateStrudelCode render (pre @ ''.room(0.96)'' @ post) no_overrides)
        \<and> extreme_effect_issue render DEFAULT_CONFIG
            \<in> set (issues (validateStrudelCode render (pre @ ''.room(0.96)'' @ post)
                              no_overrides))"
      by (rule room_above_ceiling)
  qed
  have only: "\<not> includes_str pre ''.room'' \<and> \<not> includes_str post ''.room''
        \<and> \<not> list_ex (\<lambda>a. js_gt (parseFloat a) (maxDelayFeedback DEFAULT_CONFIG))
              (call_arguments ''.delayfeedback'' (pre @ ''.room(0.95)'' @ post))
        \<and> \<not> list_ex (\<lambda>a. js_gt (parseFloat a) (Num 2 0))
              (call_arguments ''.gain'' (pre @ ''.room(0.95)'' @ post))
        \<longrightarrow> \<not> list_ex is_extreme_effect_issue
                (issues (validateStrudelCode render (pre @ ''.room(0.95)'' @ post)
                           no_overrides))"
  proof
    assume a: "\<not> includes_str pre ''.room'' \<and> \<not> includes_str post ''.room''
        \<and> \<not> list_ex (\<lambda>a. js_gt (parseFloat a) (maxDelayFeedback DEFAULT_CONFIG))
              (call_arguments ''.delayfeedback'' (pre @ ''.room(0.95)'' @ post))
        \<and> \<not> list_ex (\<lambda>a. js_gt (parseFloat a) (Num 2 0))
              (call_arguments ''.gain'' (pre @ ''.room(0.95)'' @ post))"
    then have "call_arguments ''.room'' (pre @ ''.room(0.95)'' @ post) = [''0.95'']"
      using room_call_only [OF _ _ number_texts(1,2), of pre post] by simp
    then have "list_all (\<lambda>a. a = ''0.95'') (call_arguments ''.room'' (pre @ ''.room(0.95)'' @ post))"
      by simp
    with a show "\<not> list_ex is_extreme_effect_issue
                (issues (validateStrudelCode render (pre @ ''.room(0.95)'' @ post)
                           no_overrides))"
      by (intro room_at_ceiling) simp_all
  qed
  show ?thesis
    by (intro conjI) (rule default_policy, rule room_ceiling(1), rule room_ceiling(2),
          rule room_ceiling(3), rule iff, rule above, rule below, rule first, rule only)
qed

theorem room_size_boundary_witness:
  "room_artifact ''0.96'' = ''setcpm(60)\<newline>$: s(\"bd\")\<newline>  '' @ ''.room(0.96)'' @ ''\<newline>  .gain(0.5)\<newline>  .pan(0.5)''
   \<and> room_artifact ''0.95'' = ''setcpm(60)\<newline>$: s(\"bd\")\<newline>  '' @ ''.room(0.95)'' @ ''\<newline>  .gain(0.5)\<newline>  .pan(0.5)''
   \<and> \<not> includes_str ''setcpm(60)\<newline>$: s(\"bd\")\<newline>  '' ''.room''
   \<and> \<not> includes_str ''\<newline>  .gain(0.5)\<newline>  .pan(0.5)'' ''.room''
   \<and> call_arguments ''.room'' (room_artifact ''0.96'') = [''0.96'']
   \<and> \<not> valid (validateStrudelCode plain_render (room_artifact ''0.96'') no_overrides)
   \<and> validateStrudelCode plain_render (room_artifact ''0.96'') no_overrides
       = \<lparr>valid = False,
          issues = [''extreme effect values detected - reduce delay feedback (max ''
                    @ ''?'' @ ''), reverb (max '' @ ''?'' @ ''), or gain (max 2.0)'']\<rparr>
   \<and> call_arguments ''.room'' (room_artifact ''0.95'') = [''0.95'']
   \<and> call_arguments ''.delayfeedback'' (room_artifact ''0.95'') = []
   \<and> call_arguments ''.gain'' (room_artifact ''0.95'') = [''0.5'']
   \<and> \<not> list_ex is_extreme_effect_issue
         (issues (validateStrudelCode plain_render (room_artifact ''0.95'') no_overrides))
   \<and> validateStrudelCode plain_render (room_artifact ''0.95'') no_overrides
       = \<lparr>valid = True, issues = []\<rparr>"
proof -
  let ?pre = "''setcpm(60)\<newline>$: s(\"bd\")\<newline>  ''"
  let ?post = "''\<newline>  .gain(0.5)\<newline>  .pan(0.5)''"
  have s: "room_artifact ''0.96'' = ?pre @ ''.room(0.96)'' @ ?post"
    "room_artifact ''0.95'' = ?pre @ ''.room(0.95)'' @ ?post"
    by (simp_all add: room_artifact_def)
  have n: "\<not> includes_str ?pre ''.room''" "\<not> includes_str ?post ''.room''"
    by code_simp+
  have a: "call_arguments ''.room'' (room_artifact ''0.96'') = [''0.96'']"
    unfolding room_artifact_def by code_simp
  have b: "call_arguments ''.room'' (room_artifact ''0.95'') = [''0.95'']"
    "call_arguments ''.delayfeedback'' (room_artifact ''0.95'') = []"
    "call_arguments ''.gain'' (room_artifact ''0.95'') = [''0.5'']"
    unfolding room_artifact_def by code_simp+
  have g: "\<not> js_gt (parseFloat ''0.5'') (Num 2 0)"
    by code_simp
  note t = room_size_boundary [of plain_render "room_artifact ''0.95''" ?pre ?post]
  from t n(1) have 1: "\<not> valid (validateStrudelCode plain_render (room_artifact ''0.96'') no_overrides)"
    unfolding s by blast
  have pre: "\<not> list_ex (\<lambda>a. js_gt (parseFloat a) (maxDelayFeedback DEFAULT_CONFIG))
              (call_arguments ''.delayfeedback'' (?pre @ ''.room(0.95)'' @ ?post))
        \<and> \<not> list_ex (\<lambda>a. js_gt (parseFloat a) (Num 2 0))
              (call_arguments ''.gain'' (?pre @ ''.room(0.95)'' @ ?post))"
    using g b(2,3) unfolding s by simp
  from t n pre
  have 2: "\<not> list_ex is_extreme_effect_issue
         (issues (validateStrudelCode plain_render (room_artifact ''0.95'') no_overrides))"
    unfolding s by blast
  have 3: "validateStrudelCode plain_render (room_artifact ''0.96'') no_overrides
       = \<lparr>valid = False,
          issues = [''extreme effect values detected - reduce delay feedback (max ''
                    @ ''?'' @ ''), reverb (max '' @ ''?'' @ ''), or gain (max 2.0)'']\<rparr>"
    unfolding room_artifact_def by code_simp
  have 4: "validateStrudelCode plain_render (room_artifact ''0.95'') no_overrides
       = \<lparr>valid = True, issues = []\<rparr>"
    unfolding room_artifact_def by code_simp
  from s n a b 1 2 3 4 show ?thesis by blast
qed

subsection \<open>Angle brackets in string literals\<close>

lemma quoted_scan_Nil: "match_all (with_text rx_quoted) 0 p [] = []"
  by (simp add: with_text_def rx_quoted_def)








section \<open>Properties of the generation orchestrator\<close>

lemma first_attempt_active:
  "first_attempt rq st =
     (case active_client rq of
        Some cl \<Rightarrow> stream_text cl (systemPrompt rq) (userPrompt rq) st
      | None \<Rightarrow> (Inl (Error ''No valid API client configured''), st))"
  by (simp add: first_attempt_def active_client_def streamClaude_def streamOpenAI_def
        split: provider_name.splits option.splits)

lemma second_attempt_active:
  "second_attempt rq usr st =
     (case active_client rq of
        Some cl \<Rightarrow> stream_text cl (systemPrompt rq) usr st
      | None \<Rightarrow> (Inr [], st))"
  by (simp add: second_attempt_def active_client_def streamClaude_def streamOpenAI_def
        split: provider_name.splits option.splits)

lemma first_long_block_length: "first_long_block ms = Some a \<Longrightarrow> 30 < length a"
  by (induction ms) (auto simp: Let_def split: if_splits)

lemma extractCodeForValidation_length:
  "extractCodeForValidation text = Some a \<Longrightarrow> 30 < length a"
  by (auto simp: extractCodeForValidation_def Let_def dest: first_long_block_length
        split: if_splits)

lemma filter_deltas:
  "filter is_status (map content_block_delta ts) = []"
  "filter is_clear (map content_block_delta ts) = []"
  "filter is_error_event (map content_block_delta ts) = []"
  by (induction ts) auto

lemma retry_run:
  assumes cl: "active_client rq = Some cl"
    and ok: "failure (cl 0 (systemPrompt rq) (userPrompt rq)) = None"
    and ex: "extractCodeForValidation
               (concat (delta_texts (items (cl 0 (systemPrompt rq) (userPrompt rq))))) = Some artifact"
    and inv: "\<not> valid (validateStrudelCode render artifact request_overrides)"
  shows "start render buildUserPrompt rq =
     \<lparr>enqueued =
        map content_block_delta (delta_texts (items (cl 0 (systemPrompt rq) (userPrompt rq))))
        @ [status ''simplifying...'', clear]
        @ map content_block_delta
            (delta_texts (items (cl 1 (systemPrompt rq)
               (retry_user_prompt buildUserPrompt rq
                  (issues (validateStrudelCode render artifact request_overrides))))))
        @ [closing_event (cl 1 (systemPrompt rq)
               (retry_user_prompt buildUserPrompt rq
                  (issues (validateStrudelCode render artifact request_overrides))))],
      closed = True,
      started = [userPrompt rq,
                 retry_user_prompt buildUserPrompt rq
                   (issues (validateStrudelCode render artifact request_overrides))],
      validated = [artifact]\<rparr>"
proof -
  from ex have ne: "artifact \<noteq> []"
    using extractCodeForValidation_length by fastforce
  let ?c2 = "cl 1 (systemPrompt rq)
               (retry_user_prompt buildUserPrompt rq
                  (issues (validateStrudelCode render artifact request_overrides)))"
  show ?thesis
  proof (cases "failure ?c2")
    case None
    with cl ok ex inv ne show ?thesis
      by (simp add: start_def try_block_def first_attempt_active second_attempt_active
            stream_text_def initial_state_def Let_def finish_def enqueue_def
            retry_user_prompt_def closing_event_def)
  next
    case (Some t)
    with cl ok ex inv ne show ?thesis
      by (simp add: start_def try_block_def first_attempt_active second_attempt_active
            stream_text_def initial_state_def Let_def finish_def enqueue_def
            retry_user_prompt_def closing_event_def)
  qed
qed

lemma no_artifact_run:
  assumes cl: "active_client rq = Some cl"
    and ok: "failure (cl 0 (systemPrompt rq) (userPrompt rq)) = None"
    and ex: "extractCodeForValidation
               (concat (delta_texts (items (cl 0 (systemPrompt rq) (userPrompt rq))))) = None"
  shows "start render buildUserPrompt rq =
     \<lparr>enqueued =
        map content_block_delta (delta_texts (items (cl 0 (systemPrompt rq) (userPrompt rq))))
        @ [DONE],
      closed = True, started = [userPrompt rq], validated = []\<rparr>"
  using cl ok ex
  by (simp add: start_def try_block_def first_attempt_active
        stream_text_def initial_state_def Let_def finish_def enqueue_def)

lemma delta_texts_nonempty: "t \<in> set (delta_texts its) \<Longrightarrow> t \<noteq> []"
  by (induction its rule: delta_texts.induct) (auto split: if_splits)

lemma valid_run:
  assumes cl: "active_client rq = Some cl"
    and ok: "failure (cl 0 (systemPrompt rq) (userPrompt rq)) = None"
    and ex: "extractCodeForValidation
               (concat (delta_texts (items (cl 0 (systemPrompt rq) (userPrompt rq))))) = Some artifact"
    and v: "valid (validateStrudelCode render artifact request_overrides)"
  shows "start render buildUserPrompt rq =
     \<lparr>enqueued =
        map content_block_delta (delta_texts (items (cl 0 (systemPrompt rq) (userPrompt rq))))
        @ [DONE],
      closed = True, started = [userPrompt rq], validated = [artifact]\<rparr>"
proof -
  from ex have ne: "artifact \<noteq> []"
    using extractCodeForValidation_length by fastforce
  with cl ok ex v show ?thesis
    by (simp add: start_def try_block_def first_attempt_active
          stream_text_def initial_state_def Let_def finish_def enqueue_def)
qed

subsection \<open>The caller's loop\<close>

lemma read_lines_events: "read_lines acc ls = read_events acc (line_events ls)"
  by (induction acc ls rule: read_lines.induct) (auto split: sum.splits)

lemma read_events_append:
  "read_events acc (xs @ ys) =
     (case read_events acc xs of Inl m \<Rightarrow> Inl m | Inr acc' \<Rightarrow> read_events acc' ys)"
  by (induction xs arbitrary: acc) (auto split: sum.splits)

lemma receive_events: "receive acc chunks = read_events acc (whole_events chunks)"
  by (induction chunks arbitrary: acc)
     (auto simp: whole_events_def read_lines_events read_events_append split: sum.splits)

lemma whole_events_one_per_chunk: "whole_events (one_per_chunk es) = es"
  by (induction es) (auto simp: whole_events_def one_per_chunk_def)

lemma caller_outcome_whole:
  "whole_events chunks = es \<Longrightarrow>
   caller_outcome chunks =
     (case read_events [] es of Inl m \<Rightarrow> Inl m | Inr fullText \<Rightarrow> apply_text fullText)"
  by (simp add: caller_outcome_def receive_events)

lemma read_events_deltas:
  "\<forall>t\<in>set ts. t \<noteq> [] \<Longrightarrow>
   read_events acc (map content_block_delta ts @ es) = read_events (acc @ concat ts) es"
  by (induction ts arbitrary: acc) auto

lemma read_events_deltas_only:
  "read_events [] (map content_block_delta (delta_texts its) @ [DONE])
     = Inr (concat (delta_texts its))"
  using read_events_deltas [of "delta_texts its" "[]" "[DONE]"] delta_texts_nonempty [of _ its]
  by auto

lemma read_events_after_clear:
  "read_events [] (map content_block_delta (delta_texts its1) @ [status s, clear]
               @ map content_block_delta (delta_texts its2) @ [DONE])
     = Inr (concat (delta_texts its2))"
proof -
  have "read_events [] (map content_block_delta (delta_texts its1) @ ([status s, clear]
               @ map content_block_delta (delta_texts its2) @ [DONE]))
        = read_events ([] @ concat (delta_texts its1)) ([status s, clear]
               @ map content_block_delta (delta_texts its2) @ [DONE])"
    using delta_texts_nonempty [of _ its1] by (intro read_events_deltas) auto
  also have "\<dots> = read_events [] (map content_block_delta (delta_texts its2) @ [DONE])"
    by simp
  also have "\<dots> = Inr (concat (delta_texts its2))"
    by (rule read_events_deltas_only)
  finally show ?thesis by simp
qed

lemma validateCodeContent_error_text:
  "\<not> cv_valid (validateCodeContent src) \<Longrightarrow>
   \<exists>e. cv_error (validateCodeContent src) = Some e \<and> e \<noteq> []"
  by (simp add: validateCodeContent_def Let_def split: if_splits)

lemma parseClaudeOutput_error_text:
  "\<not> success (parseClaudeOutput response) \<Longrightarrow>
   code (parseClaudeOutput response) = None
   \<and> (\<exists>e. error (parseClaudeOutput response) = Some e \<and> e \<noteq> [])"
  using validateCodeContent_error_text [of "trim response"]
        validateCodeContent_error_text
          [of "trim (hd (match_all codeBlockRegex 0 None (trim response)))"]
  by (auto simp: parseClaudeOutput_def Let_def split: if_splits)

lemma apply_text_rejected:
  assumes "\<not> success (parseClaudeOutput fullText)"
  shows "(trim fullText = [] \<longrightarrow>
            apply_text fullText
              = Inl ''Empty response from AI. The model may be overloaded - please try again.'')
         \<and> (trim fullText \<noteq> [] \<longrightarrow>
              (\<exists>e. error (parseClaudeOutput fullText) = Some e \<and> apply_text fullText = Inl e))"
proof -
  from parseClaudeOutput_error_text [OF assms] obtain e
    where "code (parseClaudeOutput fullText) = None"
      and "error (parseClaudeOutput fullText) = Some e" and "e \<noteq> []"
    by blast
  then show ?thesis
    by (auto simp: apply_text_def Let_def trim_def)
qed

lemma apply_text_accepted:
  "apply_text fullText = Inr newCode \<longleftrightarrow>
     trim fullText \<noteq> [] \<and> success (parseClaudeOutput fullText)
     \<and> code (parseClaudeOutput fullText) = Some newCode \<and> newCode \<noteq> []"
  by (auto simp: apply_text_def Let_def trim_def split: option.splits if_splits)

text \<open>
  An event that a chunk boundary cuts is lost. When it is the \<open>clear\<close> event of a retried
  request, the caller is left with the text of both attempts.
\<close>

lemma lost_clear_keeps_first_text:
  "whole_events (clear_cut ''one '' ''two'')
     = [content_block_delta ''one '', status ''simplifying...'', content_block_delta ''two'', DONE]
   \<and> receive [] (clear_cut ''one '' ''two'') = Inr ''one two''
   \<and> receive [] (one_per_chunk
        [content_block_delta ''one '', status ''simplifying...'', clear,
         content_block_delta ''two'', DONE]) = Inr ''two''"
  by (simp add: clear_cut_def one_per_chunk_def whole_events_def)


subsection \<open>One retry after a failed validation\<close>

text \<open>
  Claim C1, as stated, fails in one part: the output of the second completion is not
  applied whatever it contains. The caller applies what its own parser extracts from the
  text and raises the parser's error otherwise. Here the first artifact fails validation,
  the second completion is the text \<open>$: s(\<close>, every event arrives whole, and the caller
  raises an error instead of applying anything.
\<close>

theorem second_completion_not_applied:
  "enqueued (start plain_render plain_prompt (example_request fenced_invalid_text ''$: s(''))
     = [content_block_delta fenced_invalid_text, status ''simplifying...'', clear,
        content_block_delta ''$: s('', DONE]
   \<and> caller_outcome (one_per_chunk
        [content_block_delta fenced_invalid_text, status ''simplifying...'', clear,
         content_block_delta ''$: s('', DONE])
       = Inl ''code must start with setcpm(...), found: $: s(...''"
proof -
  let ?rq = "example_request fenced_invalid_text ''$: s(''"
  let ?cl = "fixed_client fenced_invalid_text ''$: s(''"
  let ?artifact = "''setcpm(120)\<newline>$: s(\"bd\").fast(65).room(0.99)''"
  have a: "active_client ?rq = Some ?cl"
    by (simp add: active_client_def example_request_def)
  have first: "?cl 0 (systemPrompt ?rq) (userPrompt ?rq)
      = \<lparr>items = [text_delta fenced_invalid_text], failure = None\<rparr>"
    by (simp add: fixed_client_def)
  have ne: "fenced_invalid_text \<noteq> []"
    by (simp add: fenced_invalid_text_def)
  have b: "failure (?cl 0 (systemPrompt ?rq) (userPrompt ?rq)) = None"
    by (simp add: first)
  have "extractCodeForValidation fenced_invalid_text = Some ?artifact"
    unfolding fenced_invalid_text_def by code_simp
  then have c: "extractCodeForValidation
           (concat (delta_texts (items (?cl 0 (systemPrompt ?rq) (userPrompt ?rq)))))
             = Some ?artifact"
    using ne by (simp add: first)
  have d: "\<not> valid (validateStrudelCode plain_render ?artifact request_overrides)"
    by code_simp
  have e: "enqueued (start plain_render plain_prompt ?rq)
     = [content_block_delta fenced_invalid_text, status ''simplifying...'', clear,
        content_block_delta ''$: s('', DONE]"
    using ne retry_run [OF a b c d, of plain_prompt]
    by (simp add: fixed_client_def example_request_def closing_event_def)
  have "read_events [] [content_block_delta fenced_invalid_text, status ''simplifying...'',
          clear, content_block_delta ''$: s('', DONE] = Inr ''$: s(''"
    by simp
  moreover have "apply_text ''$: s('' = Inl ''code must start with setcpm(...), found: $: s(...''"
    by code_simp
  ultimately have o: "caller_outcome (one_per_chunk
        [content_block_delta fenced_invalid_text, status ''simplifying...'', clear,
         content_block_delta ''$: s('', DONE])
       = Inl ''code must start with setcpm(...), found: $: s(...''"
    by (simp add: caller_outcome_def receive_events whole_events_one_per_chunk)
  from e o show ?thesis by blast
qed

text \<open>
  Claim C1, amended. When the first stream ends without an error and the artifact extracted
  from its text fails validation, the outbound stream carries the first attempt's deltas,
  then exactly one \<open>status\<close> event and exactly one \<open>clear\<close> event, then the deltas of one
  second completion and the closing event. Exactly two streams are started, whatever the
  second completion contains, and the validator ran once, on the first artifact only. When
  the second stream ends without an error and every event reaches the caller whole, the
  caller is left with the text of the second completion alone, and applies the code that
  its parser \<open>parseClaudeOutput\<close> extracts from that text, if it extracts any; otherwise
  it raises an error. The validator has no part in that.
\<close>

theorem one_retry_without_revalidation:
  assumes "active_client rq = Some cl"
    and "failure (cl 0 (systemPrompt rq) (userPrompt rq)) = None"
    and "extractCodeForValidation
           (concat (delta_texts (items (cl 0 (systemPrompt rq) (userPrompt rq))))) = Some artifact"
    and "\<not> valid (validateStrudelCode render artifact request_overrides)"
  shows
    "(let first = cl 0 (systemPrompt rq) (userPrompt rq);
          retry = retry_user_prompt buildUserPrompt rq
                    (issues (validateStrudelCode render artifact request_overrides));
          second = cl 1 (systemPrompt rq) retry;
          secondText = concat (delta_texts (items second));
          run = start render buildUserPrompt rq
      in enqueued run =
           map content_block_delta (delta_texts (items first))
           @ [status ''simplifying...'', clear]
           @ map content_block_delta (delta_texts (items second))
           @ [closing_event second]
         \<and> length (filter is_status (enqueued run)) = 1
         \<and> length (filter is_clear (enqueued run)) = 1
         \<and> started run = [userPrompt rq, retry]
         \<and> validated run = [artifact]
         \<and> closed run
         \<and> (failure second = None \<longrightarrow>
              (\<forall>chunks. whole_events chunks = enqueued run \<longrightarrow>
                 receive [] chunks = Inr secondText
                 \<and> caller_outcome chunks = apply_text secondText
                 \<and> (\<forall>newCode. caller_outcome chunks = Inr newCode \<longleftrightarrow>
                       trim secondText \<noteq> [] \<and> success (parseClaudeOutput secondText)
                       \<and> code (parseClaudeOutput secondText) = Some newCode
                       \<and> newCode \<noteq> []))))"
proof -
  let ?first = "cl 0 (systemPrompt rq) (userPrompt rq)"
  let ?retry = "retry_user_prompt buildUserPrompt rq
                  (issues (validateStrudelCode render artifact request_overrides))"
  let ?second = "cl 1 (systemPrompt rq) ?retry"
  let ?text = "concat (delta_texts (items ?second))"
  let ?run = "start render buildUserPrompt rq"
  have run: "?run =
     \<lparr>enqueued =
        map content_block_delta (delta_texts (items ?first))
        @ [status ''simplifying...'', clear]
        @ map content_block_delta (delta_texts (items ?second))
        @ [closing_event ?second],
      closed = True, started = [userPrompt rq, ?retry], validated = [artifact]\<rparr>"
    using assms by (rule retry_run)
  have c: "\<not> is_status (closing_event ?second)" "\<not> is_clear (closing_event ?second)"
    by (simp_all add: closing_event_def split: option.splits)
  have counts: "length (filter is_status (enqueued ?run)) = 1"
    "length (filter is_clear (enqueued ?run)) = 1"
    using c by (simp_all add: run filter_deltas)
  have e: "enqueued ?run =
        map content_block_delta (delta_texts (items ?first))
        @ [status ''simplifying...'', clear]
        @ map content_block_delta (delta_texts (items ?second))
        @ [closing_event ?second]"
    and s: "started ?run = [userPrompt rq, ?retry]"
    and v: "validated ?run = [artifact]"
    and cl: "closed ?run"
    by (simp_all add: run)
  have rcv: "failure ?second = None \<longrightarrow>
     (\<forall>chunks. whole_events chunks = enqueued ?run \<longrightarrow>
        receive [] chunks = Inr ?text
        \<and> caller_outcome chunks = apply_text ?text
        \<and> (\<forall>newCode. caller_outcome chunks = Inr newCode \<longleftrightarrow>
              trim ?text \<noteq> [] \<and> success (parseClaudeOutput ?text)
              \<and> code (parseClaudeOutput ?text) = Some newCode \<and> newCode \<noteq> []))"
  proof (intro impI allI)
    fix chunks
    assume f: "failure ?second = None" and w: "whole_events chunks = enqueued ?run"
    have r: "receive [] chunks = Inr ?text"
      using read_events_after_clear [of "items ?first" "''simplifying...''" "items ?second"] f
      by (simp add: receive_events w e closing_event_def)
    then have o: "caller_outcome chunks = apply_text ?text"
      by (simp add: caller_outcome_def)
    from r o show "receive [] chunks = Inr ?text
        \<and> caller_outcome chunks = apply_text ?text
        \<and> (\<forall>newCode. caller_outcome chunks = Inr newCode \<longleftrightarrow>
              trim ?text \<noteq> [] \<and> success (parseClaudeOutput ?text)
              \<and> code (parseClaudeOutput ?text) = Some newCode \<and> newCode \<noteq> [])"
      by (simp add: apply_text_accepted)
  qed
  show ?thesis
    unfolding Let_def
    by (intro conjI) (fact e, fact counts(1), fact counts(2), fact s, fact v, fact cl, fact rcv)
qed

theorem one_retry_without_revalidation_witness:
  "enqueued (start plain_render plain_prompt
              (example_request fenced_invalid_text fenced_extreme_text)) =
     [content_block_delta fenced_invalid_text, status ''simplifying...'', clear,
      content_block_delta fenced_extreme_text, DONE]
   \<and> length (filter is_status (enqueued (start plain_render plain_prompt
        (example_request fenced_invalid_text fenced_extreme_text)))) = 1
   \<and> length (filter is_clear (enqueued (start plain_render plain_prompt
        (example_request fenced_invalid_text fenced_extreme_text)))) = 1
   \<and> length (started (start plain_render plain_prompt
        (example_request fenced_invalid_text fenced_extreme_text))) = 2
   \<and> validated (start plain_render plain_prompt
        (example_request fenced_invalid_text fenced_extreme_text))
       = [''setcpm(120)\<newline>$: s(\"bd\").fast(65).room(0.99)'']
   \<and> caller_outcome (one_per_chunk (enqueued (start plain_render plain_prompt
        (example_request fenced_invalid_text fenced_extreme_text))))
       = Inr ''setcpm(120)\<newline>$: s(\"bd\").room(0.99)''
   \<and> \<not> valid (validateStrudelCode plain_render ''setcpm(120)\<newline>$: s(\"bd\").room(0.99)''
              request_overrides)"
proof -
  let ?rq = "example_request fenced_invalid_text fenced_extreme_text"
  let ?cl = "fixed_client fenced_invalid_text fenced_extreme_text"
  let ?run = "start plain_render plain_prompt ?rq"
  let ?artifact = "''setcpm(120)\<newline>$: s(\"bd\").fast(65).room(0.99)''"
  have a: "active_client ?rq = Some ?cl"
    by (simp add: active_client_def example_request_def)
  have first: "?cl 0 (systemPrompt ?rq) (userPrompt ?rq)
      = \<lparr>items = [text_delta fenced_invalid_text], failure = None\<rparr>"
    by (simp add: fixed_client_def)
  have ne: "fenced_invalid_text \<noteq> []" "fenced_extreme_text \<noteq> []"
    by (simp_all add: fenced_invalid_text_def fenced_extreme_text_def)
  have b: "failure (?cl 0 (systemPrompt ?rq) (userPrompt ?rq)) = None"
    by (simp add: first)
  have "extractCodeForValidation fenced_invalid_text = Some ?artifact"
    unfolding fenced_invalid_text_def by code_simp
  then have c: "extractCodeForValidation
           (concat (delta_texts (items (?cl 0 (systemPrompt ?rq) (userPrompt ?rq)))))
             = Some ?artifact"
    using ne by (simp add: first)
  have d: "\<not> valid (validateStrudelCode plain_render ?artifact request_overrides)"
    by code_simp
  note t = one_retry_without_revalidation [OF a b c d, of plain_prompt]
  from t have e: "enqueued ?run =
     [content_block_delta fenced_invalid_text, status ''simplifying...'', clear,
      content_block_delta fenced_extreme_text, DONE]
     \<and> length (filter is_status (enqueued ?run)) = 1
     \<and> length (filter is_clear (enqueued ?run)) = 1
     \<and> length (started ?run) = 2
     \<and> validated ?run = [?artifact]"
    using ne by (simp add: Let_def fixed_client_def example_request_def closing_event_def)
  from t have "\<forall>chunks. whole_events chunks = enqueued ?run \<longrightarrow>
                 caller_outcome chunks = apply_text fenced_extreme_text"
    using ne by (simp add: Let_def fixed_client_def example_request_def closing_event_def)
  then have "caller_outcome (one_per_chunk (enqueued ?run)) = apply_text fenced_extreme_text"
    by (simp add: whole_events_one_per_chunk)
  moreover have "apply_text fenced_extreme_text = Inr ''setcpm(120)\<newline>$: s(\"bd\").room(0.99)''"
    unfolding fenced_extreme_text_def by code_simp
  ultimately have o: "caller_outcome (one_per_chunk (enqueued ?run))
       = Inr ''setcpm(120)\<newline>$: s(\"bd\").room(0.99)''"
    by simp
  have v: "\<not> valid (validateStrudelCode plain_render ''setcpm(120)\<newline>$: s(\"bd\").room(0.99)''
              request_overrides)"
    by code_simp
  from e o v show ?thesis by blast
qed

subsection \<open>When a retry is started\<close>

text \<open>
  Claim C2, as stated, fails in its first half. The text below has two fenced code blocks:
  the strict parser extracts no artifact from it (it expects exactly one block), yet the
  orchestrator takes the first block longer than 30 characters, finds it invalid, and starts
  a second stream. No error event is sent, and a caller that receives every event whole
  applies the code of the second completion.
\<close>

theorem extraction_failure_retried:
  "parseClaudeOutput two_blocks_text =
     \<lparr>success = False, code = None, error = Some ''found 2 code blocks, expected exactly 1'',
      rawResponse = Some two_blocks_text\<rparr>
   \<and> extractCodeForValidation two_blocks_text
       = Some ''setcpm(120)\<newline>$: s(\"bd\").fast(65).room(0.99)''
   \<and> length (started (start plain_render plain_prompt
                (example_request two_blocks_text unfenced_text))) = 2
   \<and> enqueued (start plain_render plain_prompt (example_request two_blocks_text unfenced_text))
       = [content_block_delta two_blocks_text, status ''simplifying...'', clear,
          content_block_delta unfenced_text, DONE]
   \<and> caller_outcome (one_per_chunk
        [content_block_delta two_blocks_text, status ''simplifying...'', clear,
         content_block_delta unfenced_text, DONE])
       = Inr unfenced_text"
proof -
  let ?rq = "example_request two_blocks_text unfenced_text"
  let ?cl = "fixed_client two_blocks_text unfenced_text"
  let ?artifact = "''setcpm(120)\<newline>$: s(\"bd\").fast(65).room(0.99)''"
  have a: "active_client ?rq = Some ?cl"
    by (simp add: active_client_def example_request_def)
  have first: "?cl 0 (systemPrompt ?rq) (userPrompt ?rq)
      = \<lparr>items = [text_delta two_blocks_text], failure = None\<rparr>"
    by (simp add: fixed_client_def)
  have ne: "two_blocks_text \<noteq> []" "unfenced_text \<noteq> []"
    by (simp_all add: two_blocks_text_def fenced_invalid_text_def unfenced_text_def)
  have b: "failure (?cl 0 (systemPrompt ?rq) (userPrompt ?rq)) = None"
    by (simp add: first)
  have p: "parseClaudeOutput two_blocks_text =
     \<lparr>success = False, code = None, error = Some ''found 2 code blocks, expected exactly 1'',
      rawResponse = Some two_blocks_text\<rparr>"
    unfolding two_blocks_text_def fenced_invalid_text_def by code_simp
  have x: "extractCodeForValidation two_blocks_text = Some ?artifact"
    unfolding two_blocks_text_def fenced_invalid_text_def by code_simp
  then have c: "extractCodeForValidation
           (concat (delta_texts (items (?cl 0 (systemPrompt ?rq) (userPrompt ?rq)))))
             = Some ?artifact"
    using ne by (simp add: first)
  have d: "\<not> valid (validateStrudelCode plain_render ?artifact request_overrides)"
    by code_simp
  have s: "length (started (start plain_render plain_prompt ?rq)) = 2
     \<and> enqueued (start plain_render plain_prompt ?rq)
         = [content_block_delta two_blocks_text, status ''simplifying...'', clear,
            content_block_delta unfenced_text, DONE]"
    using ne retry_run [OF a b c d, of plain_prompt]
    by (simp add: fixed_client_def example_request_def closing_event_def)
  have "read_events [] [content_block_delta two_blocks_text, status ''simplifying...'',
          clear, content_block_delta unfenced_text, DONE] = Inr unfenced_text"
    using ne by simp
  moreover have "apply_text unfenced_text = Inr unfenced_text"
    unfolding unfenced_text_def by code_simp
  ultimately have o: "caller_outcome (one_per_chunk
        [content_block_delta two_blocks_text, status ''simplifying...'', clear,
         content_block_delta unfenced_text, DONE])
       = Inr unfenced_text"
    by (simp add: caller_outcome_def receive_events whole_events_one_per_chunk)
  from p x s o show ?thesis by blast
qed

text \<open>
  Claim C2, amended. Whether a retry is started does not depend on the strict parser: when
  the first stream ends without an error, a second stream is started exactly when the text
  has a fenced block whose trimmed text is longer than 30 characters and the first such
  block fails validation; never more than two streams are started. When the text has no
  such block, the orchestrator runs no validation and starts no second stream, and the
  outbound stream is the first attempt's deltas followed by the terminal marker, with no
  status, clear or error event. When every event then reaches the caller whole, the caller
  is left with the first text: it applies the code that its parser extracts from it, and
  when its parser extracts none the failure surfaces there, as the error that the caller
  raises with the parser's message.
\<close>

theorem retry_decided_by_first_long_block:
  assumes "active_client rq = Some cl"
    and "failure (cl 0 (systemPrompt rq) (userPrompt rq)) = None"
  shows
    "(let first = cl 0 (systemPrompt rq) (userPrompt rq);
          fullText = concat (delta_texts (items first));
          run = start render buildUserPrompt rq
      in (length (started run) = 2 \<longleftrightarrow>
            (case extractCodeForValidation fullText of
               None \<Rightarrow> False
             | Some artifact \<Rightarrow> \<not> valid (validateStrudelCode render artifact request_overrides)))
         \<and> (length (started run) = 1 \<or> length (started run) = 2)
         \<and> (extractCodeForValidation fullText = None \<longrightarrow>
              started run = [userPrompt rq]
              \<and> validated run = []
              \<and> enqueued run = map content_block_delta (delta_texts (items first)) @ [DONE]
              \<and> closed run
              \<and> filter is_status (enqueued run) = []
              \<and> filter is_clear (enqueued run) = []
              \<and> filter is_error_event (enqueued run) = []
              \<and> (\<forall>chunks. whole_events chunks = enqueued run \<longrightarrow>
                    receive [] chunks = Inr fullText
                    \<and> caller_outcome chunks = apply_text fullText
                    \<and> (\<forall>newCode. caller_outcome chunks = Inr newCode \<longleftrightarrow>
                          trim fullText \<noteq> [] \<and> success (parseClaudeOutput fullText)
                          \<and> code (parseClaudeOutput fullText) = Some newCode
                          \<and> newCode \<noteq> [])
                    \<and> (\<not> success (parseClaudeOutput fullText) \<longrightarrow>
                         (trim fullText = [] \<longrightarrow>
                            caller_outcome chunks
                              = Inl ''Empty response from AI. The model may be overloaded - please try again.'')
                         \<and> (trim fullText \<noteq> [] \<longrightarrow>
                              (\<exists>e. error (parseClaudeOutput fullText) = Some e
                                   \<and> caller_outcome chunks = Inl e))))))"
proof -
  let ?first = "cl 0 (systemPrompt rq) (userPrompt rq)"
  let ?text = "concat (delta_texts (items ?first))"
  let ?run = "start render buildUserPrompt rq"
  show ?thesis
  proof (cases "extractCodeForValidation ?text")
    case None
    have run: "?run =
       \<lparr>enqueued = map content_block_delta (delta_texts (items ?first)) @ [DONE],
        closed = True, started = [userPrompt rq], validated = []\<rparr>"
      using assms None by (rule no_artifact_run)
    have e: "enqueued ?run = map content_block_delta (delta_texts (items ?first)) @ [DONE]"
      by (simp add: run)
    have rcv: "\<forall>chunks. whole_events chunks = enqueued ?run \<longrightarrow>
                    receive [] chunks = Inr ?text
                    \<and> caller_outcome chunks = apply_text ?text
                    \<and> (\<forall>newCode. caller_outcome chunks = Inr newCode \<longleftrightarrow>
                          trim ?text \<noteq> [] \<and> success (parseClaudeOutput ?text)
                          \<and> code (parseClaudeOutput ?text) = Some newCode
                          \<and> newCode \<noteq> [])
                    \<and> (\<not> success (parseClaudeOutput ?text) \<longrightarrow>
                         (trim ?text = [] \<longrightarrow>
                            caller_outcome chunks
                              = Inl ''Empty response from AI. The model may be overloaded - please try again.'')
                         \<and> (trim ?text \<noteq> [] \<longrightarrow>
                              (\<exists>e. error (parseClaudeOutput ?text) = Some e
                                   \<and> caller_outcome chunks = Inl e)))"
    proof (intro allI impI)
      fix chunks
      assume w: "whole_events chunks = enqueued ?run"
      have r: "receive [] chunks = Inr ?text"
        by (simp add: receive_events w e read_events_deltas_only)
      then have o: "caller_outcome chunks = apply_text ?text"
        by (simp add: caller_outcome_def)
      show "receive [] chunks = Inr ?text
                    \<and> caller_outcome chunks = apply_text ?text
                    \<and> (\<forall>newCode. caller_outcome chunks = Inr newCode \<longleftrightarrow>
                          trim ?text \<noteq> [] \<and> success (parseClaudeOutput ?text)
                          \<and> code (parseClaudeOutput ?text) = Some newCode
                          \<and> newCode \<noteq> [])
                    \<and> (\<not> success (parseClaudeOutput ?text) \<longrightarrow>
                         (trim ?text = [] \<longrightarrow>
                            caller_outcome chunks
                              = Inl ''Empty response from AI. The model may be overloaded - please try again.'')
                         \<and> (trim ?text \<noteq> [] \<longrightarrow>
                              (\<exists>e. error (parseClaudeOutput ?text) = Some e
                                   \<and> caller_outcome chunks = Inl e)))"
        using r o apply_text_rejected [of ?text] by (simp add: apply_text_accepted)
    qed
    have rest: "started ?run = [userPrompt rq]" "validated ?run = []" "closed ?run"
      "filter is_status (enqueued ?run) = []" "filter is_clear (enqueued ?run) = []"
      "filter is_error_event (enqueued ?run) = []"
      by (simp_all add: run filter_deltas)
    have len: "length (started ?run) = 1"
      by (simp add: run)
    have c1: "length (started ?run) = 2 \<longleftrightarrow>
            (case extractCodeForValidation ?text of
               None \<Rightarrow> False
             | Some artifact \<Rightarrow> \<not> valid (validateStrudelCode render artifact request_overrides))"
      using None len by simp
    have c2: "length (started ?run) = 1 \<or> length (started ?run) = 2"
      using len by simp
    have c3: "extractCodeForValidation ?text = None \<longrightarrow>
              started ?run = [userPrompt rq]
              \<and> validated ?run = []
              \<and> enqueued ?run = map content_block_delta (delta_texts (items ?first)) @ [DONE]
              \<and> closed ?run
              \<and> filter is_status (enqueued ?run) = []
              \<and> filter is_clear (enqueued ?run) = []
              \<and> filter is_error_event (enqueued ?run) = []
              \<and> (\<forall>chunks. whole_events chunks = enqueued ?run \<longrightarrow>
                    receive [] chunks = Inr ?text
                    \<and> caller_outcome chunks = apply_text ?text
                    \<and> (\<forall>newCode. caller_outcome chunks = Inr newCode \<longleftrightarrow>
                          trim ?text \<noteq> [] \<and> success (parseClaudeOutput ?text)
                          \<and> code (parseClaudeOutput ?text) = Some newCode
                          \<and> newCode \<noteq> [])
                    \<and> (\<not> success (parseClaudeOutput ?text) \<longrightarrow>
                         (trim ?text = [] \<longrightarrow>
                            caller_outcome chunks
                              = Inl ''Empty response from AI. The model may be overloaded - please try again.'')
                         \<and> (trim ?text \<noteq> [] \<longrightarrow>
                              (\<exists>e. error (parseClaudeOutput ?text) = Some e
                                   \<and> caller_outcome chunks = Inl e))))"
      by (intro impI conjI)
         (rule rest(1), rule rest(2), rule e, rule rest(3), rule rest(4), rule rest(5),
          rule rest(6), rule rcv)
    show ?thesis
      unfolding Let_def by (intro conjI) (fact c1, fact c2, fact c3)
  next
    case (Some artifact)
    show ?thesis
    proof (cases "valid (validateStrudelCode render artifact request_overrides)")
      case True
      have "?run =
         \<lparr>enqueued = map content_block_delta (delta_texts (items ?first)) @ [DONE],
          closed = True, started = [userPrompt rq], validated = [artifact]\<rparr>"
        using assms Some True by (rule valid_run)
      then show ?thesis
        unfolding Let_def using Some True by simp
    next
      case False
      have "length (started ?run) = 2"
        by (simp add: retry_run [OF assms Some False])
      then show ?thesis
        unfolding Let_def using Some False by simp
    qed
  qed
qed

theorem retry_decided_by_first_long_block_witness:
  "extractCodeForValidation ''hello'' = None
   \<and> length (started (start plain_render plain_prompt (example_request ''hello'' ''again''))) = 1
   \<and> validated (start plain_render plain_prompt (example_request ''hello'' ''again'')) = []
   \<and> enqueued (start plain_render plain_prompt (example_request ''hello'' ''again''))
       = [content_block_delta ''hello'', DONE]
   \<and> \<not> success (parseClaudeOutput ''hello'')
   \<and> caller_outcome (one_per_chunk
        (enqueued (start plain_render plain_prompt (example_request ''hello'' ''again''))))
       = Inl ''no code block found in response''"
proof -
  let ?rq = "example_request ''hello'' ''again''"
  let ?cl = "fixed_client ''hello'' ''again''"
  let ?run = "start plain_render plain_prompt ?rq"
  have a: "active_client ?rq = Some ?cl"
    by (simp add: active_client_def example_request_def)
  have first: "?cl 0 (systemPrompt ?rq) (userPrompt ?rq)
      = \<lparr>items = [text_delta ''hello''], failure = None\<rparr>"
    by (simp add: fixed_client_def)
  have b: "failure (?cl 0 (systemPrompt ?rq) (userPrompt ?rq)) = None"
    by (simp add: first)
  have x: "extractCodeForValidation ''hello'' = None"
    by code_simp
  have p: "parseClaudeOutput ''hello'' =
     \<lparr>success = False, code = None, error = Some ''no code block found in response'',
      rawResponse = Some ''hello''\<rparr>"
    by code_simp
  have tr: "trim ''hello'' = ''hello''"
    by code_simp
  note t = retry_decided_by_first_long_block [OF a b, of plain_render plain_prompt]
  from t have e: "length (started ?run) = 1 \<and> validated ?run = []
     \<and> enqueued ?run = [content_block_delta ''hello'', DONE]"
    using x by (simp add: Let_def fixed_client_def example_request_def)
  have ap: "apply_text ''hello'' = Inl ''no code block found in response''"
    by code_simp
  from t have "\<forall>chunks. whole_events chunks = enqueued ?run \<longrightarrow>
                 caller_outcome chunks = Inl ''no code block found in response''"
    using x p tr ap by (simp add: Let_def fixed_client_def example_request_def)
  then have o: "caller_outcome (one_per_chunk (enqueued ?run))
                  = Inl ''no code block found in response''"
    by (simp add: whole_events_one_per_chunk)
  from x e p o show ?thesis by simp
qed

end
